theory Spec2Isabelle
  imports Complex_Main "HOL-Library.Multiset" "HOL-Library.Log_Nat"
begin

section \<open>Errors raised by the script\<close>

text \<open>
  Every exception that can leave one of the modelled functions is a value of this type;
  a function that can raise returns \<open>error + 'a\<close> with \<open>Inl\<close> for the exception.
\<close>

datatype error =
    AssertionError
  | ValueError
  | IndexError
  | KeyError
  | FileNotFoundError
  | ZeroDivisionError
  | OverflowError

section \<open>blocks_of_ones (run_predictors.py, lines 131-170)\<close>

text \<open>
  A two-dimensional numpy array is the list of its rows. The shape is kept implicit:
  the first dimension is the number of rows, the second the length of the first row
  (an array without rows never enters the loop, so its second dimension is irrelevant).
  Arrays are objects: \<open>arr.copy()\<close> allocates a new one and the slice assignment
  writes into an existing one. The heap is the list of allocated arrays, a reference is an
  index into it, and allocation appends.
\<close>

type_synonym matrix = "bool list list"
type_synonym block = "nat \<times> nat \<times> nat \<times> nat"
type_synonym heap = "matrix list"

definition shape :: "matrix \<Rightarrow> nat \<times> nat" where
  "shape arr = (length arr, case arr of [] \<Rightarrow> 0 | r # _ \<Rightarrow> length r)"

definition rect :: "matrix \<Rightarrow> bool" where
  "rect arr = list_all (\<lambda>r. length r = snd (shape arr)) arr"

text \<open>\<open>arr.sum()\<close>: the sum of all entries, \<open>True\<close> counting as 1.\<close>

definition msum :: "matrix \<Rightarrow> nat" where
  "msum arr = sum_list (map (\<lambda>r. sum_list (map of_bool r)) arr)"

text \<open>
  \<open>argmax\<close> of a boolean vector: the index of the first maximal entry, that is the
  first \<open>True\<close>, or 0 when every entry is \<open>False\<close>; numpy raises ValueError on
  an empty vector.
\<close>

definition argmax :: "bool list \<Rightarrow> error + nat" where
  "argmax xs =
     (if xs = [] then Inl ValueError
      else if True \<in> set xs then Inr (length (takeWhile (\<lambda>b. \<not> b) xs))
      else Inr 0)"

text \<open>\<open>numpy.unravel_index\<close> for a row-major two-dimensional shape.\<close>

definition unravel_index :: "nat \<Rightarrow> nat \<times> nat \<Rightarrow> error + (nat \<times> nat)" where
  "unravel_index k shp =
     (if k < fst shp * snd shp then Inr (k div snd shp, k mod snd shp)
      else Inl ValueError)"

text \<open>The slice \<open>xs[a : b + 1]\<close> for indices that are not negative.\<close>

definition slice_incl :: "nat \<Rightarrow> nat \<Rightarrow> 'a list \<Rightarrow> 'a list" where
  "slice_incl a b xs = take (Suc b - a) (drop a xs)"

text \<open>
  Lines 151-157: \<open>down_stop = numpy.argmax(arr[x1:, y1] == 0) - 1\<close> and the two
  branches that set \<open>block[2]\<close>. \<open>down_stop\<close> is a Python integer, hence \<open>int\<close>.
\<close>

definition down_extent :: "matrix \<Rightarrow> nat \<Rightarrow> nat \<Rightarrow> error + nat" where
  "down_extent arr x1 y1 =
     (case argmax (map (\<lambda>r. r ! y1 = False) (drop x1 arr)) of
        Inl e \<Rightarrow> Inl e
      | Inr k \<Rightarrow>
          (let down_stop = int k - 1 in
           if down_stop = - 1 then Inr (fst (shape arr) - 1)
           else if 0 \<le> down_stop then Inr (x1 + nat down_stop)
           else Inl AssertionError))"

text \<open>
  Lines 159-162: the loop over \<open>range(y1, arr.shape[1])\<close>. It has no \<open>break\<close>:
  every column whose entries in rows \<open>x1..x2\<close> are all 1 overwrites \<open>block[3]\<close>.
\<close>

definition right_extent :: "matrix \<Rightarrow> nat \<Rightarrow> nat \<Rightarrow> nat \<Rightarrow> nat" where
  "right_extent arr x1 x2 y1 =
     foldl (\<lambda>y2 i. if list_all (\<lambda>r. r ! i) (slice_incl x1 x2 arr) then i else y2)
       y1 [y1 ..< snd (shape arr)]"

text \<open>Lines 165-166: the condition of the assertion.\<close>

definition block_all_ones :: "matrix \<Rightarrow> block \<Rightarrow> bool" where
  "block_all_ones arr b =
     (case b of (x1, y1, x2, y2) \<Rightarrow>
        list_all (\<lambda>r. list_all (\<lambda>v. v) (slice_incl y1 y2 r)) (slice_incl x1 x2 arr))"

text \<open>Lines 148-166: one pass of the loop body up to the assertion.\<close>

definition find_block :: "matrix \<Rightarrow> error + block" where
  "find_block arr =
     (case argmax (concat arr) of
        Inl e \<Rightarrow> Inl e
      | Inr k \<Rightarrow>
     (case unravel_index k (shape arr) of
        Inl e \<Rightarrow> Inl e
      | Inr (x1, y1) \<Rightarrow>
     (case down_extent arr x1 y1 of
        Inl e \<Rightarrow> Inl e
      | Inr x2 \<Rightarrow>
          (let y2 = right_extent arr x1 x2 y1; block = (x1, y1, x2, y2)
           in if block_all_ones arr block then Inr block else Inl AssertionError))))"

text \<open>Line 167: \<open>arr[x1 : x2 + 1, y1 : y2 + 1] = 0\<close>.\<close>

definition zero_row :: "nat \<Rightarrow> nat \<Rightarrow> bool list \<Rightarrow> bool list" where
  "zero_row y1 y2 r = map (\<lambda>(j, v). if y1 \<le> j \<and> j \<le> y2 then False else v) (enumerate 0 r)"

definition zero_out :: "matrix \<Rightarrow> block \<Rightarrow> matrix" where
  "zero_out arr b =
     (case b of (x1, y1, x2, y2) \<Rightarrow>
        map (\<lambda>(i, r). if x1 \<le> i \<and> i \<le> x2 then zero_row y1 y2 r else r) (enumerate 0 arr))"

text \<open>
  The \<open>while\<close> loop of lines 147-169 on the heap: \<open>a\<close> is the reference held by the
  local name \<open>arr\<close>. A run that never leaves the loop is \<open>None\<close>; an exception leaves
  the heap as it was when it was raised.
\<close>

partial_function (option) blocks_loop ::
  "heap \<Rightarrow> nat \<Rightarrow> block list \<Rightarrow> ((error + block list) \<times> heap) option" where
  "blocks_loop h a blocks =
     (if 0 < msum (h ! a) then
        (case find_block (h ! a) of
           Inl e \<Rightarrow> Some (Inl e, h)
         | Inr block \<Rightarrow> blocks_loop (h[a := zero_out (h ! a) block]) a (blocks @ [block]))
      else Some (Inr blocks, h))"

declare blocks_loop.simps [code]

text \<open>
  The function itself: line 145 rebinds the local name to a fresh copy, and the loop
  runs on that copy.
\<close>

definition blocks_of_ones :: "heap \<Rightarrow> nat \<Rightarrow> ((error + block list) \<times> heap) option" where
  "blocks_of_ones h arr = blocks_loop (h @ [h ! arr]) (length h) []"

section \<open>Work items and tasks (run, lines 257-306)\<close>

text \<open>
  A work item is the dictionary built on lines 268-271 and 281-284; line 289 adds the key
  \<open>work_item_num\<close> to it. A task is a dictionary with the single key
  \<open>work_item_dicts\<close>.
\<close>

record work_item =
  alleles :: "string list"
  peptides :: "string list"

record numbered_work_item = work_item +
  work_item_num :: nat

record task =
  work_item_dicts :: "numbered_work_item list"

text \<open>
  \<open>a / b\<close> for Python integers: ZeroDivisionError for \<open>b = 0\<close>, otherwise the
  double nearest to the exact quotient, ties going to the even mantissa, with gradual
  underflow below \<open>2^-1022\<close> and OverflowError when the rounded quotient is
  \<open>2^1024\<close> or more. A float is kept as a pair \<open>(m, x)\<close> of integers that stands
  for \<open>m * 2^x\<close>.

  \<open>le_pow2 e a b\<close> says \<open>2^e \<le> a / b\<close> for positive \<open>b\<close>; \<open>binade a b\<close> is the
  exponent \<open>e\<close> with \<open>2^e \<le> a / b < 2^(e + 1)\<close> for positive \<open>a\<close> and \<open>b\<close>;
  \<open>round_half_even a b\<close> is the integer nearest to \<open>a / b\<close>, the even one of two.
\<close>

definition le_pow2 :: "int \<Rightarrow> int \<Rightarrow> int \<Rightarrow> bool" where
  "le_pow2 e a b = (b * 2 ^ nat e \<le> a * 2 ^ nat (- e))"

definition binade :: "int \<Rightarrow> int \<Rightarrow> int" where
  "binade a b = (let d = bitlen a - bitlen b in if le_pow2 d a b then d else d - 1)"

definition round_half_even :: "int \<Rightarrow> int \<Rightarrow> int" where
  "round_half_even a b =
     (let f = a div b; rem = a mod b
      in if 2 * rem < b then f
         else if b < 2 * rem then f + 1
         else if even f then f else f + 1)"

definition true_divide :: "int \<Rightarrow> int \<Rightarrow> error + (int \<times> int)" where
  "true_divide a b =
     (if b = 0 then Inl ZeroDivisionError
      else if a = 0 then Inr (0, 0)
      else
        (let x = max (binade \<bar>a\<bar> \<bar>b\<bar>) (- 1022) - 52;
             m = round_half_even (\<bar>a\<bar> * 2 ^ nat (- x)) (\<bar>b\<bar> * 2 ^ nat x)
         in if le_pow2 1024 (m * 2 ^ nat x) (2 ^ nat (- x)) then Inl OverflowError
            else Inr (sgn a * sgn b * m, x)))"

text \<open>\<open>math.ceil\<close> of a float: the least integer that is not below it.\<close>

definition math_ceil :: "int \<times> int \<Rightarrow> int" where
  "math_ceil f =
     (case f of (m, x) \<Rightarrow> if 0 \<le> x then m * 2 ^ nat x else - ((- m) div 2 ^ nat (- x)))"

text \<open>
  \<open>int(math.ceil(n / chunk_size))\<close> for a length \<open>n\<close> and the integer option
  \<open>--chunk-size\<close> (lines 263 and 275).
\<close>

definition num_chunks :: "nat \<Rightarrow> int \<Rightarrow> error + int" where
  "num_chunks n chunk_size =
     (case true_divide (int n) chunk_size of
        Inl e \<Rightarrow> Inl e
      | Inr f \<Rightarrow> Inr (math_ceil f))"

text \<open>
  \<open>numpy.array_split(ary, sections)\<close> with an integer number of sections: ValueError
  unless the number is positive; otherwise \<open>len(ary) mod sections\<close> leading parts of
  size \<open>len(ary) div sections + 1\<close> followed by parts of size \<open>len(ary) div sections\<close>,
  cut from the array in order.
\<close>

fun chop :: "nat list \<Rightarrow> 'a list \<Rightarrow> 'a list list" where
  "chop [] xs = []"
| "chop (n # ns) xs = take n xs # chop ns (drop n xs)"

definition array_split :: "'a list \<Rightarrow> int \<Rightarrow> error + 'a list list" where
  "array_split ary sections =
     (if sections \<le> 0 then Inl ValueError
      else
        (let n = nat sections;
             each_section = length ary div n;
             extras = length ary mod n
         in Inr (chop (replicate extras (each_section + 1) @
                       replicate (n - extras) each_section) ary)))"

text \<open>Lines 273-285: the work items of a run without reused predictions.\<close>

definition fresh_work_items :: "string list \<Rightarrow> string list \<Rightarrow> int \<Rightarrow> error + work_item list" where
  "fresh_work_items peps als chunk_size =
     (case num_chunks (length peps) chunk_size of
        Inl e \<Rightarrow> Inl e
      | Inr n \<Rightarrow>
     (case array_split peps n of
        Inl e \<Rightarrow> Inl e
      | Inr peptide_chunks \<Rightarrow>
          Inr (map (\<lambda>chunk_peptides. \<lparr>alleles = als, peptides = chunk_peptides\<rparr>)
                 peptide_chunks)))"

text \<open>
  Lines 257-272: the work items of a run with reused predictions, one pass of the loop
  per block. \<open>peps\<close> is the array \<open>peptides\<close> of all peptides, \<open>idx\<close> is
  \<open>result_df.index\<close> and \<open>cols\<close> is \<open>is_null_matrix.columns\<close>. The length of
  \<open>block_peptides\<close> gives the number of chunks; the array that is split on line 265
  is \<open>peptides\<close>.
\<close>

fun reuse_work_items ::
  "string list \<Rightarrow> 'l list \<Rightarrow> string list \<Rightarrow> int \<Rightarrow> block list \<Rightarrow> work_item list \<Rightarrow>
   error + work_item list" where
  "reuse_work_items peps idx cols chunk_size [] work_items = Inr work_items"
| "reuse_work_items peps idx cols chunk_size
     ((row_index1, col_index1, row_index2, col_index2) # blocks) work_items =
     (let block_alleles = slice_incl col_index1 col_index2 cols;
          block_peptides = slice_incl row_index1 row_index2 idx
      in case num_chunks (length block_peptides) chunk_size of
           Inl e \<Rightarrow> Inl e
         | Inr n \<Rightarrow>
        (case array_split peps n of
           Inl e \<Rightarrow> Inl e
         | Inr peptide_chunks \<Rightarrow>
             reuse_work_items peps idx cols chunk_size blocks
               (work_items @
                map (\<lambda>chunk_peptides. \<lparr>alleles = block_alleles, peptides = chunk_peptides\<rparr>)
                  peptide_chunks)))"

text \<open>Lines 288-289: every work item gets its position in the list as \<open>work_item_num\<close>.\<close>

definition number_work_items :: "work_item list \<Rightarrow> numbered_work_item list" where
  "number_work_items work_items =
     map (\<lambda>(i, w). \<lparr>alleles = alleles w, peptides = peptides w, work_item_num = i\<rparr>)
       (enumerate 0 work_items)"

text \<open>
  Lines 291-306: tasks. The state of the loop is the list \<open>tasks\<close> and
  \<open>peptides_in_last_task\<close>, which is \<open>None\<close> before the first work item and a
  number once \<open>tasks\<close> has a last element. \<open>sorted\<close> is stable, as
  \<open>sort_key\<close> is.
\<close>

definition pack_step ::
  "int \<Rightarrow> task list \<times> nat option \<Rightarrow> numbered_work_item \<Rightarrow> task list \<times> nat option" where
  "pack_step chunk_size st work_item =
     (case st of (tasks, peptides_in_last_task) \<Rightarrow>
        (case peptides_in_last_task of
           Some n \<Rightarrow>
             if int (length (peptides work_item)) + int n < chunk_size
             then (butlast tasks @
                     [\<lparr>work_item_dicts = work_item_dicts (last tasks) @ [work_item]\<rparr>],
                   Some (n + length (peptides work_item)))
             else (tasks @ [\<lparr>work_item_dicts = [work_item]\<rparr>],
                   Some (length (peptides work_item)))
         | None \<Rightarrow>
             (tasks @ [\<lparr>work_item_dicts = [work_item]\<rparr>],
              Some (length (peptides work_item)))))"

definition make_tasks :: "int \<Rightarrow> numbered_work_item list \<Rightarrow> task list" where
  "make_tasks chunk_size work_items =
     fst (foldl (pack_step chunk_size) ([], None)
            (sort_key (\<lambda>d. length (peptides d)) work_items))"

text \<open>The number of peptides of a task, summed over its work items.\<close>

definition task_peptides :: "task \<Rightarrow> nat" where
  "task_peptides t = sum_list (map (\<lambda>d. length (peptides d)) (work_item_dicts t))"

section \<open>The result matrix (pandas DataFrame of float32)\<close>

text \<open>
  A cell is NaN or a number of the frame's dtype. The script never computes with the
  numbers: it stores, copies and tests them for NaN, so they are kept abstract as reals.
  A row label is a string, or one of the values \<open>read_csv\<close> makes of a cell it does
  not keep as text: the missing value, an infinity or a boolean. A frame is its row
  labels and its columns in order, each column an array aligned with the row labels.
\<close>

datatype cell = NaN | Val real

datatype label = Str string | Missing | PosInf | NegInf | Boolean bool

record dataframe =
  index :: "label list"
  data :: "(string \<times> cell list) list"

definition columns :: "dataframe \<Rightarrow> string list" where
  "columns df = map fst (data df)"

text \<open>\<open>df[c].values\<close>; KeyError when the frame has no such column.\<close>

definition column_values :: "dataframe \<Rightarrow> string \<Rightarrow> error + cell list" where
  "column_values df c = (case map_of (data df) c of None \<Rightarrow> Inl KeyError | Some v \<Rightarrow> Inr v)"

text \<open>
  \<open>pandas.DataFrame(index=labels, columns=cols, dtype="float32")\<close> followed by
  \<open>df[:] = numpy.nan\<close> (lines 109-111 and 229-231).
\<close>

definition nan_frame :: "label list \<Rightarrow> string list \<Rightarrow> dataframe" where
  "nan_frame labels cols =
     \<lparr>index = labels, data = map (\<lambda>c. (c, replicate (length labels) NaN)) cols\<rparr>"

text \<open>
  The rows that carry a label, in order, and the indexer of a list of labels: the rows
  of the first label, then those of the second, and so on. Where the row labels are
  distinct, the indexer has one row per label.
\<close>

definition positions :: "label list \<Rightarrow> label \<Rightarrow> nat list" where
  "positions idx p = filter (\<lambda>i. idx ! i = p) [0 ..< length idx]"

definition label_indexer :: "label list \<Rightarrow> label list \<Rightarrow> nat list" where
  "label_indexer idx labels = concat (map (positions idx) labels)"

text \<open>\<open>values[indexer] = vals\<close> on one column: a later assignment to a row wins.\<close>

definition assign_positions :: "nat list \<Rightarrow> cell list \<Rightarrow> cell list \<Rightarrow> cell list" where
  "assign_positions indexer vals old =
     foldl (\<lambda>column_array (i, v). column_array[i := v]) old (zip indexer vals)"

text \<open>
  \<open>df.loc[labels, c] = vals\<close> for a list of row labels and an array of values:
  KeyError when a label is not a row label; the array must have one value per row of the
  indexer, or be a single value, which is then broadcast to every row of the indexer;
  any other length is a ValueError. A column the frame does not have yet is added, NaN
  outside the assigned rows.
\<close>

definition loc_assign :: "dataframe \<Rightarrow> label list \<Rightarrow> string \<Rightarrow> cell list \<Rightarrow> error + dataframe" where
  "loc_assign df labels c vals =
     (if \<not> list_all (\<lambda>p. p \<in> set (index df)) labels then Inl KeyError
      else
        (let indexer = label_indexer (index df) labels
         in if length vals \<noteq> length indexer \<and> length vals \<noteq> 1 then Inl ValueError
            else
              (let vals' = (if length vals = length indexer then vals
                            else replicate (length indexer) (hd vals))
               in if c \<in> set (columns df) then
                    Inr (df\<lparr>data :=
                           map (\<lambda>(c', old). if c' = c
                                  then (c', assign_positions indexer vals' old)
                                  else (c', old))
                             (data df)\<rparr>)
                  else
                    Inr (df\<lparr>data := data df @
                           [(c, assign_positions indexer vals'
                                  (replicate (length (index df)) NaN))]\<rparr>))))"

text \<open>
  The cell of a frame at a row label and a column name, if the frame has both: the cell
  in the first row that carries the label.
\<close>

definition row_position :: "label list \<Rightarrow> label \<Rightarrow> nat" where
  "row_position idx p = length (takeWhile (\<lambda>q. q \<noteq> p) idx)"

definition cell_at :: "dataframe \<Rightarrow> label \<Rightarrow> string \<Rightarrow> cell option" where
  "cell_at df p c =
     (case map_of (data df) c of
        None \<Rightarrow> None
      | Some v \<Rightarrow> if p \<in> set (index df) then Some (v ! row_position (index df) p) else None)"

text \<open>\<open>d[k] = v\<close> on a dictionary kept as an association list in insertion order.\<close>

definition dict_set :: "('k \<times> 'v) list \<Rightarrow> 'k \<Rightarrow> 'v \<Rightarrow> ('k \<times> 'v) list" where
  "dict_set d k v =
     (if k \<in> set (map fst d) then map (\<lambda>(k', v'). if k' = k then (k', v) else (k', v')) d
      else d @ [(k, v)])"

section \<open>The column store (a results directory)\<close>

text \<open>
  A directory holds \<open>peptides.csv\<close>, \<open>alleles.csv\<close> and array files, kept by file
  name. A file is absent (\<open>None\<close>, or not in the list of array files), or it is there
  and its content is what the reader expects or not. Opening an absent file is a
  FileNotFoundError; the parsers of pandas and numpy raise ValueError, or one of its
  subclasses, on content they cannot read. \<open>peptides.csv\<close> is kept as the cells of its
  column \<open>peptide\<close>, strings as they stand in the file. The manifest \<open>alleles.csv\<close>
  has the columns allele, kind, col and path; old manifests lack kind or col
  (lines 102-106).
\<close>

datatype 'a file_content = Unreadable | Readable 'a

definition read_file :: "'a file_content option \<Rightarrow> error + 'a" where
  "read_file f =
     (case f of
        None \<Rightarrow> Inl FileNotFoundError
      | Some Unreadable \<Rightarrow> Inl ValueError
      | Some (Readable content) \<Rightarrow> Inr content)"

record manifest_row =
  allele :: string
  kind :: string
  col :: string
  path :: string

record manifest_file =
  has_kind :: bool
  has_col :: bool
  rows :: "manifest_row list"

record directory =
  peptides_csv :: "string list file_content option"
  alleles_csv :: "manifest_file file_content option"
  arrays :: "(string \<times> cell list file_content) list"

text \<open>
  \<open>pandas.read_csv(...).peptide\<close> on a column of words. A cell that is one of the
  default NA markers is read as the missing value. When every other cell spells an
  infinity (\<open>inf\<close> or \<open>infinity\<close> in any case, with or without a sign) the column is
  read as floats, and when every other cell is one of the six spellings of true and
  false it is read as booleans; otherwise the cells are kept as the strings they are.
  Cells with digits are left as text here: a column whose cells all spell numbers is
  read as numbers as well, and no peptide the script keeps (line 192) has a digit.
\<close>

definition na_values :: "string list" where
  "na_values =
     ['''', ''#N/A'', ''#N/A N/A'', ''#NA'', ''-1.#IND'', ''-1.#QNAN'', ''-NaN'', ''-nan'',
      ''1.#IND'', ''1.#QNAN'', ''<NA>'', ''N/A'', ''NA'', ''NULL'', ''NaN'', ''n/a'',
      ''nan'', ''null'']"

definition lower :: "char \<Rightarrow> char" where
  "lower ch =
     (case map_of (zip ''ABCDEFGHIJKLMNOPQRSTUVWXYZ'' ''abcdefghijklmnopqrstuvwxyz'') ch of
        None \<Rightarrow> ch
      | Some l \<Rightarrow> l)"

definition pos_inf_cell :: "string \<Rightarrow> bool" where
  "pos_inf_cell s = (map lower s \<in> set [''inf'', ''+inf'', ''infinity'', ''+infinity''])"

definition neg_inf_cell :: "string \<Rightarrow> bool" where
  "neg_inf_cell s = (map lower s \<in> set [''-inf'', ''-infinity''])"

definition true_values :: "string list" where
  "true_values = [''True'', ''TRUE'', ''true'']"

definition false_values :: "string list" where
  "false_values = [''False'', ''FALSE'', ''false'']"

definition read_csv_labels :: "string list \<Rightarrow> label list" where
  "read_csv_labels cells =
     (let present = filter (\<lambda>s. s \<notin> set na_values) cells
      in if present \<noteq> [] \<and> list_all (\<lambda>s. pos_inf_cell s \<or> neg_inf_cell s) present then
           map (\<lambda>s. if s \<in> set na_values then Missing
                     else if pos_inf_cell s then PosInf else NegInf) cells
         else if present \<noteq> [] \<and>
                 list_all (\<lambda>s. s \<in> set true_values \<or> s \<in> set false_values) present then
           map (\<lambda>s. if s \<in> set na_values then Missing
                     else Boolean (s \<in> set true_values)) cells
         else
           map (\<lambda>s. if s \<in> set na_values then Missing else Str s) cells)"

text \<open>The file system: the directories that exist, by name.\<close>

type_synonym filesystem = "(string \<times> directory) list"

datatype predictor = Mhcflurry | Netmhcpan4

fun PREDICTOR_TO_COLS :: "predictor \<Rightarrow> string list" where
  "PREDICTOR_TO_COLS Mhcflurry = [''affinity'']"
| "PREDICTOR_TO_COLS Netmhcpan4 = [''affinity'', ''percentile_rank'', ''elution_score'']"

text \<open>Line 222: \<open>s.replace("*", "").replace(" ", ".") + ".npz"\<close>.\<close>

definition col_path :: "string \<Rightarrow> string" where
  "col_path s =
     map (\<lambda>ch. if ch = CHR '' '' then CHR ''.'' else ch) (filter (\<lambda>ch. ch \<noteq> CHR ''*'') s)
     @ ''.npz''"

text \<open>Lines 213-222: the manifest of a run.\<close>

definition make_manifest :: "string list \<Rightarrow> string list \<Rightarrow> manifest_row list" where
  "make_manifest als kinds =
     concat (map (\<lambda>a. map (\<lambda>k.
         \<lparr>allele = a, kind = k, col = a @ '' '' @ k, path = col_path (a @ '' '' @ k)\<rparr>) kinds) als)"

text \<open>
  Lines 208-231: the peptide list and the manifest are written to the output directory
  (array files that are already there stay), and the result matrix starts all NaN.
\<close>

definition init_out :: "string list \<Rightarrow> manifest_row list \<Rightarrow> directory \<Rightarrow> directory" where
  "init_out peps manifest_df out =
     out\<lparr>peptides_csv := Some (Readable peps),
         alleles_csv :=
           Some (Readable \<lparr>has_kind = True, has_col = True, rows = manifest_df\<rparr>)\<rparr>"

text \<open>
  Lines 349-356, \<open>write_col\<close>: the array of one column is saved under the file name the
  manifest gives the column. File names are kept relative to the output directory.
\<close>

definition col_to_filename :: "manifest_row list \<Rightarrow> string \<Rightarrow> error + string" where
  "col_to_filename manifest_df c =
     (case map_of (map (\<lambda>r. (col r, path r)) manifest_df) c of
        None \<Rightarrow> Inl KeyError
      | Some f \<Rightarrow> Inr f)"

definition write_col ::
  "manifest_row list \<Rightarrow> dataframe \<Rightarrow> directory \<Rightarrow> string \<Rightarrow> error + directory" where
  "write_col manifest_df result_df out c =
     (case col_to_filename manifest_df c of
        Inl e \<Rightarrow> Inl e
      | Inr out_path \<Rightarrow>
     (case column_values result_df c of
        Inl e \<Rightarrow> Inl e
      | Inr v \<Rightarrow> Inr (out\<lparr>arrays := dict_set (arrays out) out_path (Readable v)\<rparr>)))"

text \<open>Lines 369-371: the final write of every column.\<close>

fun write_cols ::
  "manifest_row list \<Rightarrow> dataframe \<Rightarrow> directory \<Rightarrow> string list \<Rightarrow> error + directory" where
  "write_cols manifest_df result_df out [] = Inr out"
| "write_cols manifest_df result_df out (c # cs) =
     (case write_col manifest_df result_df out c of
        Inl e \<Rightarrow> Inl e
      | Inr out' \<Rightarrow> write_cols manifest_df result_df out' cs)"

text \<open>\<open>value[mask]\<close> for a boolean mask: IndexError unless the lengths agree.\<close>

definition boolean_index :: "'a list \<Rightarrow> bool list \<Rightarrow> error + 'a list" where
  "boolean_index v row_mask =
     (if length row_mask \<noteq> length v then Inl IndexError
      else Inr (map fst (filter snd (zip v row_mask))))"

text \<open>Lines 102-106: the adjustments for old manifests.\<close>

definition adjust_manifest :: "manifest_file \<Rightarrow> manifest_row list" where
  "adjust_manifest mf =
     map (\<lambda>r. let r1 = (if has_kind mf then r else r\<lparr>kind := ''affinity''\<rparr>)
               in if has_col mf then r1 else r1\<lparr>col := allele r1 @ '' '' @ kind r1\<rparr>)
       (rows mf)"

text \<open>Lines 121-126: the loop over the rows of the manifest.\<close>

fun load_columns ::
  "directory \<Rightarrow> bool list option \<Rightarrow> label list \<Rightarrow> manifest_row list \<Rightarrow> dataframe \<Rightarrow>
   error + dataframe" where
  "load_columns d row_mask peptides_to_assign [] result_df = Inr result_df"
| "load_columns d row_mask peptides_to_assign (row # rest) result_df =
     (case read_file (map_of (arrays d) (path row)) of
        Inl e \<Rightarrow> Inl e
      | Inr v \<Rightarrow>
     (case (case row_mask of None \<Rightarrow> Inr v | Some m \<Rightarrow> boolean_index v m) of
        Inl e \<Rightarrow> Inl e
      | Inr v' \<Rightarrow>
     (case loc_assign result_df peptides_to_assign (col row) v' of
        Inl e \<Rightarrow> Inl e
      | Inr result_df' \<Rightarrow> load_columns d row_mask peptides_to_assign rest result_df')))"

text \<open>Lines 90-128, \<open>load_results\<close>.\<close>

definition load_results :: "filesystem \<Rightarrow> string \<Rightarrow> dataframe option \<Rightarrow> error + dataframe" where
  "load_results fs dirname result_df =
     (case map_of fs dirname of
        None \<Rightarrow> Inl FileNotFoundError
      | Some d \<Rightarrow>
     (case read_file (peptides_csv d) of
        Inl e \<Rightarrow> Inl e
      | Inr cells \<Rightarrow>
     (case read_file (alleles_csv d) of
        Inl e \<Rightarrow> Inl e
      | Inr mf \<Rightarrow>
          (let peps = read_csv_labels cells;
               manifest_df = adjust_manifest mf
           in case result_df of
                None \<Rightarrow>
                  load_columns d None peps manifest_df
                    (nan_frame peps (map col manifest_df))
              | Some df \<Rightarrow>
                  (let manifest_df' = filter (\<lambda>r. col r \<in> set (columns df)) manifest_df;
                       row_mask = map (\<lambda>p. p \<in> set (index df)) peps;
                       peptides_to_assign = map fst (filter snd (zip peps row_mask))
                   in load_columns d (Some row_mask) peptides_to_assign manifest_df' df)))))"

text \<open>
  Lines 233-241: the loop over \<open>--reuse-predictions\<close>. The second component collects the
  directories for which the warning of line 241 is printed.
\<close>

fun reuse_loop ::
  "filesystem \<Rightarrow> string list \<Rightarrow> dataframe \<Rightarrow> string list \<Rightarrow> error + (dataframe \<times> string list)" where
  "reuse_loop fs [] result_df warnings = Inr (result_df, warnings)"
| "reuse_loop fs (dirname # rest) result_df warnings =
     (if dirname = [] then reuse_loop fs rest result_df warnings
      else if map_of fs dirname \<noteq> None then
        (case load_results fs dirname (Some result_df) of
           Inl e \<Rightarrow> Inl e
         | Inr result_df' \<Rightarrow> reuse_loop fs rest result_df' warnings)
      else reuse_loop fs rest result_df (warnings @ [dirname]))"

text \<open>
  Lines 245-248: a peptide/allele pair is null when one of the allele's columns is NaN
  in the peptide's row. Selecting a column the frame does not have is a KeyError.
\<close>

definition is_null_matrix ::
  "dataframe \<Rightarrow> manifest_row list \<Rightarrow> string list \<Rightarrow> error + matrix" where
  "is_null_matrix result_df manifest_df als =
     (if \<not> list_all (\<lambda>r. col r \<in> set (columns result_df)) manifest_df then Inl KeyError
      else Inr (map (\<lambda>i. map (\<lambda>a.
                  list_ex (\<lambda>r. map_of (data result_df) (col r) \<noteq> None \<and>
                                the (map_of (data result_df) (col r)) ! i = NaN)
                    (filter (\<lambda>r. allele r = a) manifest_df)) als)
                [0 ..< length (index result_df)]))"

text \<open>
  Lines 243-272: the work items of a run with reused predictions, from the result matrix
  as the reuse loop left it. The null matrix is a new array, alone on its heap.
\<close>

definition reuse_run_work_items ::
  "string list \<Rightarrow> string list \<Rightarrow> manifest_row list \<Rightarrow> dataframe \<Rightarrow> int \<Rightarrow>
   (error + work_item list) option" where
  "reuse_run_work_items peps als manifest_df result_df chunk_size =
     (case is_null_matrix result_df manifest_df als of
        Inl e \<Rightarrow> Some (Inl e)
      | Inr m \<Rightarrow>
     (case blocks_of_ones [m] 0 of
        None \<Rightarrow> None
      | Some (Inl e, _) \<Rightarrow> Some (Inl e)
      | Some (Inr blocks, _) \<Rightarrow>
          Some (reuse_work_items peps (index result_df) als chunk_size blocks [])))"

section \<open>Merging results (run, lines 343-371)\<close>

text \<open>
  The state of the merge loop: the result matrix, the dictionary
  \<open>last_write_time_per_column\<close>, the output directory, and the number of calls of
  \<open>time.time()\<close> made so far. The clock is a parameter: \<open>clock k\<close> is what the
  \<open>k\<close>-th call returns.
\<close>

record merge_state =
  result_df :: dataframe
  last_write_time_per_column :: "(string \<times> real) list"
  out_dir :: directory
  clock_reads :: nat

text \<open>Line 347.\<close>

definition initial_write_times :: "dataframe \<Rightarrow> (string \<times> real) list" where
  "initial_write_times df = map (\<lambda>c. (c, 0)) (columns df)"

text \<open>
  Lines 360-367: one pass of the innermost loop, for one column of one result.
  \<open>work_items[work_item_num]\<close> is an IndexError for a number that is no position of
  the list. The peptides of a work item are strings, and so are the row labels they
  address.
\<close>

definition merge_column ::
  "(nat \<Rightarrow> real) \<Rightarrow> manifest_row list \<Rightarrow> numbered_work_item list \<Rightarrow> nat \<Rightarrow>
   merge_state \<Rightarrow> string \<times> cell list \<Rightarrow> error + merge_state" where
  "merge_column clock manifest_df work_items num st entry =
     (case entry of (c, predictions) \<Rightarrow>
        if length work_items \<le> num then Inl IndexError
        else
          (case loc_assign (result_df st) (map Str (peptides (work_items ! num))) c
                  predictions of
             Inl e \<Rightarrow> Inl e
           | Inr df \<Rightarrow>
               (let now = clock (clock_reads st);
                    st1 = st\<lparr>result_df := df, clock_reads := clock_reads st + 1\<rparr>
                in case map_of (last_write_time_per_column st1) c of
                     None \<Rightarrow> Inl KeyError
                   | Some t \<Rightarrow>
                       if now - t > 180 then
                         (case write_col manifest_df df (out_dir st1) c of
                            Inl e \<Rightarrow> Inl e
                          | Inr out \<Rightarrow>
                              Inr (st1\<lparr>out_dir := out,
                                       last_write_time_per_column :=
                                         dict_set (last_write_time_per_column st1) c
                                           (clock (clock_reads st1)),
                                       clock_reads := clock_reads st1 + 1\<rparr>))
                       else Inr st1)))"

text \<open>Lines 359-367: the merge of one \<open>(work_item_num, col_to_predictions)\<close> pair.\<close>

fun merge_result ::
  "(nat \<Rightarrow> real) \<Rightarrow> manifest_row list \<Rightarrow> numbered_work_item list \<Rightarrow>
   merge_state \<Rightarrow> nat \<times> (string \<times> cell list) list \<Rightarrow> error + merge_state" where
  "merge_result clock manifest_df work_items st (num, []) = Inr st"
| "merge_result clock manifest_df work_items st (num, entry # col_to_predictions) =
     (case merge_column clock manifest_df work_items num st entry of
        Inl e \<Rightarrow> Inl e
      | Inr st' \<Rightarrow> merge_result clock manifest_df work_items st' (num, col_to_predictions))"

section \<open>Invariants and auxiliary notions of the proofs\<close>

text \<open>
  The cells of a block, the cells of a matrix that hold 1, and lists of blocks no two of
  which share a cell.
\<close>

definition block_cells :: "block \<Rightarrow> (nat \<times> nat) set" where
  "block_cells b = (case b of (x1, y1, x2, y2) \<Rightarrow>
     {(i, j). x1 \<le> i \<and> i \<le> x2 \<and> y1 \<le> j \<and> j \<le> y2})"

definition ones :: "matrix \<Rightarrow> (nat \<times> nat) set" where
  "ones arr = {(i, j). i < length arr \<and> j < length (arr ! i) \<and> arr ! i ! j}"

fun disjoint_blocks :: "block list \<Rightarrow> bool" where
  "disjoint_blocks [] = True"
| "disjoint_blocks (b # bs) =
     ((\<forall>c \<in> set bs. block_cells b \<inter> block_cells c = {}) \<and> disjoint_blocks bs)"

text \<open>What the packing loop keeps true of its state, for a chunk size.\<close>

definition task_ok :: "int \<Rightarrow> task \<Rightarrow> bool" where
  "task_ok chunk_size t =
     (int (task_peptides t) < chunk_size \<or>
      (\<exists>w. work_item_dicts t = [w] \<and> chunk_size \<le> int (length (peptides w))))"

definition pack_inv :: "int \<Rightarrow> task list \<times> nat option \<Rightarrow> bool" where
  "pack_inv chunk_size st =
     (case st of (tasks, peptides_in_last_task) \<Rightarrow>
        (case peptides_in_last_task of
           None \<Rightarrow> tasks = []
         | Some n \<Rightarrow> tasks \<noteq> [] \<and> n = task_peptides (last tasks)) \<and>
        (\<forall>t \<in> set tasks. work_item_dicts t \<noteq> [] \<and> task_ok chunk_size t))"

text \<open>
  The keys of \<open>last_write_time_per_column\<close> are columns of the result matrix: line 347
  makes it so, and no merge changes either.
\<close>

definition merge_inv :: "merge_state \<Rightarrow> bool" where
  "merge_inv st = (set (map fst (last_write_time_per_column st)) \<subseteq> set (columns (result_df st)))"

text \<open>
  A nonempty word over the twenty amino-acid letters: what the filter of line 192 keeps.
\<close>

definition amino_acid_word :: "string \<Rightarrow> bool" where
  "amino_acid_word s = (s \<noteq> [] \<and> list_all (\<lambda>ch. ch \<in> set ''ACDEFGHIKLMNPQRSTVWY'') s)"

text \<open>
  An allele name made of letters, digits and the characters \<open>*\<close>, \<open>:\<close> and \<open>-\<close>, as
  in \<open>HLA-A*02:01\<close>: no character of it means anything to a file system.
\<close>

definition allele_name :: "string \<Rightarrow> bool" where
  "allele_name s =
     (s \<noteq> [] \<and>
      list_all (\<lambda>ch. ch \<in> set (''ABCDEFGHIJKLMNOPQRSTUVWXYZ'' @ ''abcdefghijklmnopqrstuvwxyz'' @
                                ''0123456789'' @ ''*:-'')) s)"

text \<open>A frame over the given row labels whose columns all have one value per row.\<close>

definition frame_ok :: "label list \<Rightarrow> dataframe \<Rightarrow> bool" where
  "frame_ok labels df =
     (index df = labels \<and> list_all (\<lambda>(c, v). length v = length labels) (data df))"

text \<open>The array of a column as \<open>write_col\<close> saves it.\<close>

definition stored_column :: "dataframe \<Rightarrow> string \<Rightarrow> cell list" where
  "stored_column df c =
     (case map_of (data df) c of
        Some v \<Rightarrow> v
      | None \<Rightarrow> replicate (length (index df)) NaN)"

section \<open>Properties of blocks_of_ones\<close>

subsection \<open>Sums of lists compared position by position\<close>

lemma sum_list_nth_le:
  fixes xs ys :: "nat list"
  assumes "length xs = length ys" "\<And>i. i < length xs \<Longrightarrow> xs ! i \<le> ys ! i"
  shows "sum_list xs \<le> sum_list ys"
proof -
  have "sum ((!) xs) {0..<length xs} \<le> sum ((!) ys) {0..<length xs}"
    by (rule sum_mono) (use assms in auto)
  then show ?thesis using assms(1) by (simp add: sum_list_sum_nth)
qed

lemma sum_list_nth_less:
  fixes xs ys :: "nat list"
  assumes "length xs = length ys" "\<And>i. i < length xs \<Longrightarrow> xs ! i \<le> ys ! i"
    "k < length xs" "xs ! k < ys ! k"
  shows "sum_list xs < sum_list ys"
proof -
  have "sum ((!) xs) {0..<length xs} < sum ((!) ys) {0..<length xs}"
    by (rule sum_strict_mono_ex1) (use assms in auto)
  then show ?thesis using assms(1) by (simp add: sum_list_sum_nth)
qed

subsection \<open>The slice assignment\<close>

lemma length_zero_row [simp]: "length (zero_row y1 y2 r) = length r"
  by (simp add: zero_row_def)

lemma nth_zero_row:
  "j < length r \<Longrightarrow> zero_row y1 y2 r ! j = (if y1 \<le> j \<and> j \<le> y2 then False else r ! j)"
  by (simp add: zero_row_def nth_enumerate_eq)

lemma length_zero_out [simp]: "length (zero_out arr b) = length arr"
  by (simp add: zero_out_def split: prod.splits)

lemma nth_zero_out:
  "i < length arr \<Longrightarrow>
   zero_out arr (x1, y1, x2, y2) ! i =
     (if x1 \<le> i \<and> i \<le> x2 then zero_row y1 y2 (arr ! i) else arr ! i)"
  by (simp add: zero_out_def nth_enumerate_eq)

lemma shape_zero_out [simp]: "shape (zero_out arr b) = shape arr"
proof (cases arr)
  case Nil
  then show ?thesis by (simp add: zero_out_def shape_def split: prod.splits)
next
  case (Cons r rs)
  obtain x1 y1 x2 y2 where b: "b = (x1, y1, x2, y2)" by (cases b) auto
  have "zero_out arr b \<noteq> []" using Cons by (simp add: zero_out_def b)
  then obtain r' rs' where z: "zero_out arr b = r' # rs'" by (cases "zero_out arr b") auto
  have "r' = zero_out arr b ! 0" using z by simp
  also have "\<dots> = (if x1 \<le> 0 \<and> 0 \<le> x2 then zero_row y1 y2 r else r)"
    using Cons by (simp add: b nth_zero_out)
  finally have "length r' = length r" by (simp split: if_splits)
  moreover have "length (r' # rs') = length (r # rs)"
    by (metis length_zero_out z Cons)
  ultimately show ?thesis using Cons z by (simp add: shape_def)
qed

lemma rect_zero_out: "rect arr \<Longrightarrow> rect (zero_out arr b)"
proof -
  assume r: "rect arr"
  obtain x1 y1 x2 y2 where b: "b = (x1, y1, x2, y2)" by (cases b) auto
  have "\<forall>i<length (zero_out arr b). length (zero_out arr b ! i) = snd (shape arr)"
    using r by (auto simp: b nth_zero_out rect_def list_all_length)
  then show ?thesis by (simp add: rect_def list_all_length)
qed

lemma row_sum_zero_row_le:
  "sum_list (map of_bool (zero_row y1 y2 r)) \<le> (sum_list (map of_bool r) :: nat)"
  by (rule sum_list_nth_le) (auto simp: nth_zero_row)

lemma row_sum_zero_row_less:
  assumes "y1 < length r" "r ! y1" "y1 \<le> y2"
  shows "sum_list (map of_bool (zero_row y1 y2 r)) < (sum_list (map of_bool r) :: nat)"
  by (rule sum_list_nth_less [where k = y1]) (use assms in \<open>auto simp: nth_zero_row\<close>)

lemma msum_zero_out_less:
  assumes "x1 < length arr" "y1 < length (arr ! x1)" "arr ! x1 ! y1" "x1 \<le> x2" "y1 \<le> y2"
  shows "msum (zero_out arr (x1, y1, x2, y2)) < msum arr"
proof -
  let ?f = "\<lambda>r. sum_list (map of_bool r) :: nat"
  let ?z = "zero_out arr (x1, y1, x2, y2)"
  have "sum_list (map ?f ?z) < sum_list (map ?f arr)"
  proof (rule sum_list_nth_less [where k = x1])
    show "length (map ?f ?z) = length (map ?f arr)" by simp
  next
    fix i assume "i < length (map ?f ?z)"
    then show "map ?f ?z ! i \<le> map ?f arr ! i"
      by (simp add: nth_zero_out row_sum_zero_row_le)
  next
    show "x1 < length (map ?f ?z)" using assms by simp
  next
    show "map ?f ?z ! x1 < map ?f arr ! x1"
      using assms by (simp add: nth_zero_out row_sum_zero_row_less)
  qed
  then show ?thesis by (simp add: msum_def)
qed


subsection \<open>The block found by one pass\<close>

lemma foldl_pick_ge:
  fixes a :: nat
  assumes "\<And>i. i \<in> set xs \<Longrightarrow> a \<le> i" "a \<le> y0"
  shows "a \<le> foldl (\<lambda>y2 i. if P i then i else y2) y0 xs"
  using assms by (induction xs arbitrary: y0) auto

lemma right_extent_ge: "y1 \<le> right_extent arr x1 x2 y1"
  unfolding right_extent_def by (rule foldl_pick_ge) auto

lemma down_extent_ge:
  assumes "down_extent arr x1 y1 = Inr x2" "x1 < length arr"
  shows "x1 \<le> x2 \<and> x2 < length arr"
proof -
  let ?col = "map (\<lambda>r. r ! y1 = False) (drop x1 arr)"
  from assms(1) obtain k where k: "argmax ?col = Inr k"
    by (auto simp: down_extent_def split: sum.splits)
  have "length (takeWhile (\<lambda>b. \<not> b) ?col) \<le> length ?col"
    by (rule length_takeWhile_le)
  with k have "k \<le> length ?col"
    by (simp add: argmax_def split: if_splits)
  then have kl: "x1 + k \<le> length arr" using assms(2) by simp
  show ?thesis
  proof (cases "k = 0")
    case True
    with assms k have "x2 = length arr - 1" by (simp add: down_extent_def shape_def)
    with assms(2) show ?thesis by auto
  next
    case False
    with assms k have "x2 = x1 + nat (int k - 1)"
      by (auto simp: down_extent_def Let_def split: if_splits)
    with False kl show ?thesis by auto
  qed
qed

lemma unravel_index_bounds:
  assumes "unravel_index k (shape arr) = Inr (x1, y1)"
  shows "x1 < length arr \<and> y1 < snd (shape arr)"
proof -
  from assms have k: "k < length arr * snd (shape arr)" and x: "x1 = k div snd (shape arr)"
    and y: "y1 = k mod snd (shape arr)"
    by (auto simp: unravel_index_def shape_def split: if_splits)
  from k have "0 < snd (shape arr)" by (cases "snd (shape arr)") auto
  with k x y show ?thesis by (simp add: less_mult_imp_div_less)
qed

lemma slice_incl_hd:
  assumes "a < length xs" "a \<le> b"
  shows "xs ! a \<in> set (slice_incl a b xs)"
proof -
  have "drop a xs = xs ! a # drop (Suc a) xs" using assms by (simp add: Cons_nth_drop_Suc)
  moreover obtain n where "Suc b - a = Suc n" using assms by (cases "Suc b - a") auto
  ultimately show ?thesis by (simp add: slice_incl_def)
qed

lemma block_all_ones_seed:
  assumes "block_all_ones arr (x1, y1, x2, y2)" "x1 < length arr" "y1 < length (arr ! x1)"
    "x1 \<le> x2" "y1 \<le> y2"
  shows "arr ! x1 ! y1"
proof -
  have "arr ! x1 \<in> set (slice_incl x1 x2 arr)" using assms by (simp add: slice_incl_hd)
  with assms(1) have "list_all (\<lambda>v. v) (slice_incl y1 y2 (arr ! x1))"
    by (auto simp: block_all_ones_def list_all_iff)
  moreover have "arr ! x1 ! y1 \<in> set (slice_incl y1 y2 (arr ! x1))"
    using assms by (simp add: slice_incl_hd)
  ultimately show ?thesis by (auto simp: list_all_iff)
qed

lemma find_block_seed:
  assumes "rect arr" "find_block arr = Inr (x1, y1, x2, y2)"
  shows "x1 < length arr \<and> y1 < length (arr ! x1) \<and> x1 \<le> x2 \<and> y1 \<le> y2 \<and> arr ! x1 ! y1"
proof -
  from assms(2) obtain k where
    u: "unravel_index k (shape arr) = Inr (x1, y1)" and
    d: "down_extent arr x1 y1 = Inr x2" and
    y2: "y2 = right_extent arr x1 x2 y1" and
    a: "block_all_ones arr (x1, y1, x2, y2)"
    by (auto simp: find_block_def Let_def split: sum.splits if_splits)
  from u have b: "x1 < length arr" "y1 < snd (shape arr)"
    using unravel_index_bounds by blast+
  from assms(1) b have l: "y1 < length (arr ! x1)"
    by (simp add: rect_def list_all_length)
  from d b have "x1 \<le> x2" using down_extent_ge by blast
  moreover have "y1 \<le> y2" using y2 right_extent_ge by simp
  ultimately show ?thesis using a b l block_all_ones_seed by blast
qed


lemma find_block_decreases:
  assumes "rect arr" "find_block arr = Inr b"
  shows "msum (zero_out arr b) < msum arr"
proof -
  obtain x1 y1 x2 y2 where b: "b = (x1, y1, x2, y2)" by (cases b) auto
  from find_block_seed [OF assms(1) assms(2) [unfolded b]] show ?thesis
    unfolding b by (simp add: msum_zero_out_less)
qed

subsection \<open>The loop\<close>

lemma blocks_loop_returns:
  assumes "a < length h" "rect (h ! a)"
  shows "\<exists>res. blocks_loop h a blocks = Some res"
  using assms
proof (induction "msum (h ! a)" arbitrary: h blocks rule: less_induct)
  case less
  show ?case
  proof (cases "0 < msum (h ! a)")
    case False
    then show ?thesis by (subst blocks_loop.simps) simp
  next
    case True
    show ?thesis
    proof (cases "find_block (h ! a)")
      case (Inl e)
      with True show ?thesis by (subst blocks_loop.simps) simp
    next
      case (Inr b)
      let ?h = "h[a := zero_out (h ! a) b]"
      have "msum (?h ! a) < msum (h ! a)"
        using less.prems Inr by (simp add: find_block_decreases)
      moreover have "a < length ?h" "rect (?h ! a)"
        using less.prems by (simp_all add: rect_zero_out)
      ultimately have "\<exists>res. blocks_loop ?h a (blocks @ [b]) = Some res"
        by (rule less.hyps)
      with True Inr show ?thesis by (subst blocks_loop.simps) simp
    qed
  qed
qed

lemma blocks_loop_frame:
  assumes "blocks_loop h a blocks = Some out"
  shows "length (snd out) = length h \<and> (\<forall>i. i \<noteq> a \<longrightarrow> snd out ! i = h ! i)"
proof (rule blocks_loop.raw_induct
    [where P = "\<lambda>h a blocks out. length (snd out) = length h \<and> (\<forall>i. i \<noteq> a \<longrightarrow> snd out ! i = h ! i)",
     OF _ assms])
  fix loop :: "heap \<Rightarrow> nat \<Rightarrow> block list \<Rightarrow> ((error + block list) \<times> heap) option"
    and h a blocks out
  assume IH: "\<And>h a blocks out. loop h a blocks = Some out \<Longrightarrow>
      length (snd out) = length h \<and> (\<forall>i. i \<noteq> a \<longrightarrow> snd out ! i = h ! i)"
    and step: "(if 0 < msum (h ! a) then
        (case find_block (h ! a) of
           Inl e \<Rightarrow> Some (Inl e, h)
         | Inr block \<Rightarrow> loop (h[a := zero_out (h ! a) block]) a (blocks @ [block]))
      else Some (Inr blocks, h)) = Some out"
  show "length (snd out) = length h \<and> (\<forall>i. i \<noteq> a \<longrightarrow> snd out ! i = h ! i)"
  proof (cases "0 < msum (h ! a)")
    case False
    with step show ?thesis by auto
  next
    case True
    show ?thesis
    proof (cases "find_block (h ! a)")
      case (Inl e)
      with True step show ?thesis by auto
    next
      case (Inr b)
      with True step have "loop (h[a := zero_out (h ! a) b]) a (blocks @ [b]) = Some out"
        by simp
      from IH [OF this] show ?thesis by simp
    qed
  qed
qed

text \<open>
  C7: for every boolean matrix held by the heap, \<open>blocks_of_ones\<close> leaves its loop, with
  a list of blocks or with an exception. Whenever a pass over a working matrix \<open>w\<close> gets
  as far as the slice assignment, the block contains the seed cell \<open>(x1, y1)\<close>, the seed
  cell is 1 in \<open>w\<close>, and the assignment leaves strictly fewer 1s than \<open>w\<close> had.
\<close>

theorem blocks_of_ones_terminates:
  assumes "arr < length h" "rect (h ! arr)"
  shows "(\<exists>res. blocks_of_ones h arr = Some res) \<and>
         (\<forall>w x1 y1 x2 y2. rect w \<longrightarrow> find_block w = Inr (x1, y1, x2, y2) \<longrightarrow>
            x1 \<le> x2 \<and> y1 \<le> y2 \<and> x1 < fst (shape w) \<and> y1 < snd (shape w) \<and> w ! x1 ! y1 \<and>
            msum (zero_out w (x1, y1, x2, y2)) < msum w)"
proof -
  have "length h < length (h @ [h ! arr])" "rect ((h @ [h ! arr]) ! length h)"
    using assms by simp_all
  then have "\<exists>res. blocks_loop (h @ [h ! arr]) (length h) [] = Some res"
    by (rule blocks_loop_returns)
  moreover have "x1 \<le> x2 \<and> y1 \<le> y2 \<and> x1 < fst (shape w) \<and> y1 < snd (shape w) \<and> w ! x1 ! y1 \<and>
            msum (zero_out w (x1, y1, x2, y2)) < msum w"
    if "rect w" "find_block w = Inr (x1, y1, x2, y2)" for w x1 y1 x2 y2
  proof -
    from find_block_seed [OF that]
    have s: "x1 < length w" "y1 < length (w ! x1)" "x1 \<le> x2" "y1 \<le> y2" "w ! x1 ! y1"
      by simp_all
    from that(1) s(1,2) have "y1 < snd (shape w)" by (simp add: rect_def list_all_length)
    with s find_block_decreases [OF that] show ?thesis by (simp add: shape_def)
  qed
  ultimately show ?thesis by (simp add: blocks_of_ones_def)
qed

theorem blocks_of_ones_terminates_witness:
  "(0::nat) < length [[[True, True], [True, False]]] \<and>
   rect ([[[True, True], [True, False]]] ! 0) \<and>
   find_block [[True, True], [True, False]] = Inr (0, 0, 1, 0) \<and>
   msum (zero_out [[True, True], [True, False]] (0, 0, 1, 0)) < msum [[True, True], [True, False]] \<and>
   (\<exists>res. blocks_of_ones [[[True, True], [True, False]]] 0 = Some res)"
proof -
  have a: "(0::nat) < length [[[True, True], [True, False]]]" by simp
  have r: "rect ([[[True, True], [True, False]]] ! 0)" by code_simp
  have f: "find_block [[True, True], [True, False]] = Inr (0, 0, 1, 0)" by code_simp
  from blocks_of_ones_terminates [OF a r] r f a show ?thesis by auto
qed

text \<open>
  C8: \<open>blocks_of_ones\<close> does not modify its argument: after the call, with a result or
  an exception, the array the caller passed is what it was, and so is every array that
  existed before the call; the only array written is the copy made on line 145.
\<close>

theorem blocks_of_ones_input_unchanged:
  assumes "arr < length h" "blocks_of_ones h arr = Some (res, h')"
  shows "h' ! arr = h ! arr \<and> take (length h) h' = h"
proof -
  from assms(2) have l: "blocks_loop (h @ [h ! arr]) (length h) [] = Some (res, h')"
    by (simp add: blocks_of_ones_def)
  from blocks_loop_frame [OF l]
  have len: "length h' = Suc (length h)"
    and same: "\<And>i. i \<noteq> length h \<Longrightarrow> h' ! i = (h @ [h ! arr]) ! i"
    by simp_all
  have "take (length h) h' = h"
    by (rule nth_equalityI) (use len same in \<open>auto simp: nth_append\<close>)
  moreover have "h' ! arr = h ! arr" using assms(1) same [of arr] by (simp add: nth_append)
  ultimately show ?thesis by simp
qed

theorem blocks_of_ones_input_unchanged_witness:
  "(0::nat) < length [[[True, True], [True, False]]] \<and>
   blocks_of_ones [[[True, True], [True, False]]] 0 =
     Some (Inr [(0, 0, 1, 0), (0, 1, 0, 1)],
           [[[True, True], [True, False]], [[False, False], [False, False]]]) \<and>
   [[[True, True], [True, False]], [[False, False], [False, False]]] ! 0 =
     [[[True, True], [True, False]]] ! 0"
proof -
  have a: "(0::nat) < length [[[True, True], [True, False]]]" by simp
  have b: "blocks_of_ones [[[True, True], [True, False]]] 0 =
     Some (Inr [(0, 0, 1, 0), (0, 1, 0, 1)],
           [[[True, True], [True, False]], [[False, False], [False, False]]])"
    by code_simp
  from blocks_of_ones_input_unchanged [OF a b] a b show ?thesis by simp
qed

subsection \<open>What a returned list of blocks covers\<close>

text \<open>
  When the function returns a list of blocks, no assertion having failed, the blocks are
  pairwise disjoint and their cells are exactly the cells of the argument that hold 1.
\<close>

lemma nth_slice_incl:
  assumes "a \<le> i" "i \<le> b" "i < length xs"
  shows "xs ! i \<in> set (slice_incl a b xs)"
proof -
  have "i - a < length (slice_incl a b xs)" using assms by (auto simp: slice_incl_def)
  moreover have "slice_incl a b xs ! (i - a) = xs ! i"
    using assms by (simp add: slice_incl_def)
  ultimately show ?thesis by (metis nth_mem)
qed

lemma block_all_ones_cells:
  assumes "block_all_ones arr (x1, y1, x2, y2)" "x2 < length arr"
    "\<And>i. i < length arr \<Longrightarrow> y2 < length (arr ! i)"
  shows "block_cells (x1, y1, x2, y2) \<subseteq> ones arr"
proof
  fix c assume "c \<in> block_cells (x1, y1, x2, y2)"
  then obtain i j where c: "c = (i, j)" and ij: "x1 \<le> i" "i \<le> x2" "y1 \<le> j" "j \<le> y2"
    by (auto simp: block_cells_def)
  from ij assms(2) have i: "i < length arr" by simp
  with assms(3) ij have j: "j < length (arr ! i)" by (meson le_less_trans)
  have "arr ! i \<in> set (slice_incl x1 x2 arr)" using ij i by (simp add: nth_slice_incl)
  with assms(1) have "list_all (\<lambda>v. v) (slice_incl y1 y2 (arr ! i))"
    by (auto simp: block_all_ones_def list_all_iff)
  moreover have "arr ! i ! j \<in> set (slice_incl y1 y2 (arr ! i))"
    using ij j by (simp add: nth_slice_incl)
  ultimately have "arr ! i ! j" by (auto simp: list_all_iff)
  with i j show "c \<in> ones arr" by (simp add: ones_def c)
qed

lemma foldl_pick_less:
  fixes n :: nat
  assumes "\<And>i. i \<in> set xs \<Longrightarrow> i < n" "y0 < n"
  shows "foldl (\<lambda>y2 i. if P i then i else y2) y0 xs < n"
  using assms by (induction xs arbitrary: y0) auto

lemma right_extent_less:
  "y1 < snd (shape arr) \<Longrightarrow> right_extent arr x1 x2 y1 < snd (shape arr)"
  unfolding right_extent_def by (rule foldl_pick_less) auto

lemma ones_zero_out:
  "ones (zero_out arr b) = ones arr - block_cells b"
proof -
  obtain x1 y1 x2 y2 where b: "b = (x1, y1, x2, y2)" by (cases b) auto
  show ?thesis
    unfolding b by (auto simp: ones_def block_cells_def nth_zero_out nth_zero_row split: if_splits)
qed

lemma find_block_cells:
  assumes "rect arr" "find_block arr = Inr b"
  shows "block_cells b \<subseteq> ones arr"
proof -
  obtain x1 y1 x2 y2 where b: "b = (x1, y1, x2, y2)" by (cases b) auto
  from assms(2) obtain k where
    u: "unravel_index k (shape arr) = Inr (x1, y1)" and
    d: "down_extent arr x1 y1 = Inr x2" and
    y2: "y2 = right_extent arr x1 x2 y1" and
    a: "block_all_ones arr (x1, y1, x2, y2)"
    by (auto simp: b find_block_def Let_def split: sum.splits if_splits)
  from u have bd: "x1 < length arr" "y1 < snd (shape arr)"
    using unravel_index_bounds by blast+
  from d bd have x2: "x2 < length arr" using down_extent_ge by blast
  from bd y2 have "y2 < snd (shape arr)" by (simp add: right_extent_less)
  with assms(1) have "\<And>i. i < length arr \<Longrightarrow> y2 < length (arr ! i)"
    by (simp add: rect_def list_all_length)
  with a x2 show ?thesis unfolding b by (rule block_all_ones_cells)
qed

lemma msum_zero_iff: "\<not> 0 < msum arr \<Longrightarrow> ones arr = {}"
proof -
  assume "\<not> 0 < msum arr"
  then have z: "\<forall>r \<in> set arr. \<forall>v \<in> set r. \<not> v"
    by (auto simp: msum_def)
  show ?thesis
  proof (rule ccontr)
    assume "ones arr \<noteq> {}"
    then obtain i j where "i < length arr" "j < length (arr ! i)" "arr ! i ! j"
      by (auto simp: ones_def)
    with z show False by (metis nth_mem)
  qed
qed

lemma blocks_loop_cover:
  assumes "a < length h" "rect (h ! a)" "blocks_loop h a blocks = Some (Inr bs, h')"
  shows "\<exists>new. bs = blocks @ new \<and> \<Union> (block_cells ` set new) = ones (h ! a) \<and>
           disjoint_blocks new"
  using assms
proof (induction "msum (h ! a)" arbitrary: h blocks rule: less_induct)
  case less
  show ?case
  proof (cases "0 < msum (h ! a)")
    case False
    with less.prems(3) have "bs = blocks" by (subst (asm) blocks_loop.simps) simp
    with False show ?thesis by (simp add: msum_zero_iff)
  next
    case True
    show ?thesis
    proof (cases "find_block (h ! a)")
      case (Inl e)
      with True less.prems(3) show ?thesis by (subst (asm) blocks_loop.simps) simp
    next
      case (Inr b)
      let ?h = "h[a := zero_out (h ! a) b]"
      have l: "blocks_loop ?h a (blocks @ [b]) = Some (Inr bs, h')"
        using True Inr less.prems(3) by (subst (asm) blocks_loop.simps) simp
      have "msum (?h ! a) < msum (h ! a)"
        using less.prems Inr by (simp add: find_block_decreases)
      moreover have "a < length ?h" "rect (?h ! a)"
        using less.prems by (simp_all add: rect_zero_out)
      ultimately obtain new where
        n: "bs = (blocks @ [b]) @ new" "\<Union> (block_cells ` set new) = ones (?h ! a)"
          "disjoint_blocks new"
        using less.hyps l by blast
      have sub: "block_cells b \<subseteq> ones (h ! a)"
        using less.prems(2) Inr by (rule find_block_cells)
      have o: "ones (?h ! a) = ones (h ! a) - block_cells b"
        using less.prems(1) by (simp add: ones_zero_out)
      have "bs = blocks @ (b # new)" using n(1) by simp
      moreover have "\<Union> (block_cells ` set (b # new)) = ones (h ! a)"
        using n(2) o sub by auto
      moreover have "disjoint_blocks (b # new)"
        using n(2,3) o by auto
      ultimately show ?thesis by blast
    qed
  qed
qed

lemma blocks_of_ones_cover:
  assumes "arr < length h" "rect (h ! arr)" "blocks_of_ones h arr = Some (Inr bs, h')"
  shows "\<Union> (block_cells ` set bs) = ones (h ! arr) \<and> disjoint_blocks bs"
proof -
  have "length h < length (h @ [h ! arr])" "rect ((h @ [h ! arr]) ! length h)"
    using assms by simp_all
  from blocks_loop_cover [OF this, of "[]" bs h'] assms(3)
  show ?thesis by (simp add: blocks_of_ones_def)
qed

subsection \<open>A matrix on which the assertion fails\<close>

text \<open>
  C1: on the one-row matrix \<open>[[1, 0, 1]]\<close> the function returns no list of blocks. The
  column loop has no \<open>break\<close>, so it passes the 0 in column 1 and sets \<open>block[3]\<close> to
  column 2; the assertion of lines 165-166 then fails and AssertionError is raised.
\<close>

theorem blocks_of_ones_assertion_fails:
  "blocks_of_ones [[[True, False, True]]] 0 =
     Some (Inl AssertionError, [[[True, False, True]], [[True, False, True]]])"
  by code_simp

section \<open>Properties of the work items and tasks\<close>

lemma length_chop [simp]: "length (chop ns xs) = length ns"
  by (induction ns arbitrary: xs) auto

lemma concat_chop: "sum_list ns = length xs \<Longrightarrow> concat (chop ns xs) = xs"
proof (induction ns arbitrary: xs)
  case Nil
  then show ?case by simp
next
  case (Cons n ns)
  then have "sum_list ns = length (drop n xs)" by simp
  then have "concat (chop ns (drop n xs)) = drop n xs" by (rule Cons.IH)
  then show ?case by simp
qed

lemma array_split_parts:
  assumes "0 < sections"
  shows "\<exists>chunks. array_split ary sections = Inr chunks \<and> concat chunks = ary \<and>
           int (length chunks) = sections"
proof -
  let ?n = "nat sections"
  let ?sizes = "replicate (length ary mod ?n) (length ary div ?n + 1) @
                replicate (?n - length ary mod ?n) (length ary div ?n)"
  have n: "0 < ?n" using assms by simp
  then have "length ary mod ?n < ?n" by simp
  then have "sum_list ?sizes = ?n * (length ary div ?n) + length ary mod ?n"
    by (simp add: sum_list_replicate algebra_simps)
  then have "sum_list ?sizes = length ary" by simp
  then have "concat (chop ?sizes ary) = ary" by (rule concat_chop)
  moreover have "length (chop ?sizes ary) = ?n" using n by simp
  ultimately show ?thesis using assms by (simp add: array_split_def Let_def)
qed

subsection \<open>The number of chunks\<close>

lemma le_pow2_binade:
  assumes "0 < a" "0 < b"
  shows "le_pow2 (binade a b) a b"
proof (cases "le_pow2 (bitlen a - bitlen b) a b")
  case True
  then show ?thesis by (simp add: binade_def)
next
  case False
  let ?d = "bitlen a - bitlen b"
  from bitlen_bounds [OF assms(1)] have a: "2 ^ nat (bitlen a - 1) \<le> a" by simp
  from bitlen_bounds [OF assms(2)] have b: "b < 2 ^ nat (bitlen b)" by simp
  have la: "1 \<le> bitlen a" and lb: "1 \<le> bitlen b"
    using assms by (simp_all add: bitlen_alt_def)
  have ex: "nat (bitlen b) + nat (?d - 1) = nat (bitlen a - 1) + nat (- (?d - 1))"
    using la lb by auto
  have "b * 2 ^ nat (?d - 1) \<le> 2 ^ nat (bitlen b) * 2 ^ nat (?d - 1)"
    using b by (simp add: mult_right_mono)
  also have "\<dots> = (2::int) ^ (nat (bitlen b) + nat (?d - 1))" by (simp add: power_add)
  also have "\<dots> = (2::int) ^ (nat (bitlen a - 1) + nat (- (?d - 1)))"
    by (simp only: ex)
  also have "\<dots> = 2 ^ nat (bitlen a - 1) * 2 ^ nat (- (?d - 1))"
    by (rule power_add)
  also have "\<dots> \<le> a * 2 ^ nat (- (?d - 1))"
    using a by (simp add: mult_right_mono)
  finally have "le_pow2 (?d - 1) a b" by (simp add: le_pow2_def)
  with False show ?thesis by (simp add: binade_def)
qed


lemma round_half_even_le:
  assumes "0 < b" "a \<le> K * b"
  shows "round_half_even a b \<le> K"
proof -
  have f: "a div b \<le> K"
  proof -
    have "a div b \<le> (K * b) div b" using assms by (intro zdiv_mono1) simp_all
    then show ?thesis using assms(1) by simp
  qed
  show ?thesis
  proof (cases "a div b = K")
    case True
    have "a = b * (a div b) + a mod b" by simp
    with True assms(2) have "a mod b \<le> 0" by (simp add: algebra_simps)
    moreover have "0 \<le> a mod b" using assms(1) by simp
    ultimately have "a mod b = 0" by simp
    with True assms(1) show ?thesis by (simp add: round_half_even_def Let_def)
  next
    case False
    with f have "a div b + 1 \<le> K" by simp
    then show ?thesis by (simp add: round_half_even_def Let_def)
  qed
qed

lemma round_half_even_gt:
  assumes "0 < b" "K * b + t \<le> a" "b < 2 * t"
  shows "K < round_half_even a b"
proof -
  have "K * b \<le> a" using assms by simp
  then have "(K * b) div b \<le> a div b" using assms(1) by (intro zdiv_mono1) simp_all
  then have f: "K \<le> a div b" using assms(1) by simp
  show ?thesis
  proof (cases "a div b = K")
    case True
    have "a = b * (a div b) + a mod b" by simp
    with True assms(2) have "t \<le> a mod b" by (simp add: algebra_simps)
    with assms(3) have "b < 2 * (a mod b)" by simp
    with True show ?thesis by (simp add: round_half_even_def Let_def)
  next
    case False
    with f have "K < a div b" by simp
    then show ?thesis by (simp add: round_half_even_def Let_def)
  qed
qed

lemma ceiling_quotient:
  fixes c :: int
  assumes "0 < c"
  shows "a \<le> (- ((- a) div c)) * c \<and> (- ((- a) div c) - 1) * c < a"
proof -
  define q where "q = (- a) div c"
  define r where "r = (- a) mod c"
  have "c * q + r = - a" unfolding q_def r_def by (rule mult_div_mod_eq)
  moreover have "0 \<le> r" "r < c" using assms by (simp_all add: r_def)
  ultimately have "a \<le> (- q) * c \<and> (- q - 1) * c < a"
    by (simp add: algebra_simps)
  then show ?thesis by (simp add: q_def)
qed

lemma ceiling_quotient_unique:
  fixes d :: int
  assumes "0 < d" "(k - 1) * d < r" "r \<le> k * d"
  shows "- ((- r) div d) = k"
proof -
  define K where "K = - ((- r) div d)"
  from ceiling_quotient [OF assms(1), of r]
  have c: "r \<le> K * d" "(K - 1) * d < r" by (simp_all add: K_def)
  have "(k - 1) * d < K * d" using assms(2) c(1) by (rule less_le_trans)
  then have "k - 1 < K" by (rule mult_right_less_imp_less) (use assms(1) in simp)
  moreover have "(K - 1) * d < k * d" using c(2) assms(3) by (rule less_le_trans)
  then have "K - 1 < k" by (rule mult_right_less_imp_less) (use assms(1) in simp)
  ultimately have "K = k" by simp
  then show ?thesis by (simp only: K_def)
qed

lemma num_chunks_exact:
  assumes "0 < n" "0 < c" "int n < 2 ^ 53" "c < 2 ^ 53"
  shows "num_chunks n c = Inr (- ((- int n) div c))"
proof -
  define a where "a = int n"
  define e where "e = binade a c"
  define s where "s = nat (52 - e)"
  define k where "k = - ((- a) div c)"
  have a: "0 < a" "a < 2 ^ 53" using assms by (simp_all add: a_def)
  have low: "c * 2 ^ nat e \<le> a * 2 ^ nat (- e)"
    using le_pow2_binade [OF a(1) assms(2)] by (simp add: le_pow2_def e_def)
  have e_hi: "e \<le> 52"
  proof (rule ccontr)
    assume "\<not> e \<le> 52"
    then have e53: "53 \<le> nat e" "nat (- e) = 0" by simp_all
    have "(2::int) ^ 53 \<le> 2 ^ nat e"
      using e53(1) by (intro power_increasing) simp_all
    then have "c * 2 ^ 53 \<le> c * 2 ^ nat e"
      using assms(2) by (intro mult_left_mono) simp_all
    also have "\<dots> \<le> a" using low e53(2) by simp
    finally have "c * 2 ^ 53 < 1 * 2 ^ 53" using a(2) by simp
    then have "c < 1" by (simp only: mult_less_cancel_right) simp
    with assms(2) show False by simp
  qed
  have e_lo: "- 1022 \<le> e"
  proof -
    from bitlen_bounds [OF assms(2)] assms(4)
    have "(2::int) ^ nat (bitlen c - 1) < 2 ^ 53" by simp
    then have "nat (bitlen c - 1) < 53" by (simp only: power_strict_increasing_iff)
    then have "bitlen c \<le> 53" by simp
    moreover have "1 \<le> bitlen a" using a(1) by (simp add: bitlen_alt_def)
    ultimately have "- 53 \<le> bitlen a - bitlen c - 1" by simp
    moreover have "bitlen a - bitlen c - 1 \<le> e"
      by (simp add: e_def binade_def Let_def)
    ultimately show ?thesis by simp
  qed
  have x: "max (binade a c) (- 1022) = binade a c" "binade a c - 52 = - int s"
    "nat (binade a c - 52) = 0" "nat (52 - binade a c) = s"
    using e_hi e_lo by (simp_all add: s_def e_def)
  have c_small: "c < 2 * 2 ^ s"
  proof -
    have ex: "Suc s + nat e = 53 + nat (- e)" using e_hi by (simp add: s_def)
    have "c * 2 ^ nat e \<le> a * 2 ^ nat (- e)" by (rule low)
    also have "\<dots> < 2 ^ 53 * 2 ^ nat (- e)" using a(2) by simp
    also have "\<dots> = (2::int) ^ (53 + nat (- e))" by (simp add: power_add)
    also have "\<dots> = (2::int) ^ (Suc s + nat e)" by (simp only: ex)
    also have "\<dots> = (2 * 2 ^ s) * 2 ^ nat e" by (simp add: power_add)
    finally show ?thesis by (simp only: mult_less_cancel_right) simp
  qed
  from ceiling_quotient [OF assms(2), of a]
  have k: "a \<le> k * c" "(k - 1) * c < a" by (simp_all add: k_def)
  define r where "r = round_half_even (a * 2 ^ s) c"
  have r_le: "r \<le> k * 2 ^ s"
  proof -
    have "a * 2 ^ s \<le> (k * c) * 2 ^ s" using k(1) by (simp add: mult_right_mono)
    then have "a * 2 ^ s \<le> (k * 2 ^ s) * c" by (simp add: algebra_simps)
    with assms(2) show ?thesis unfolding r_def by (rule round_half_even_le)
  qed
  have r_gt: "(k - 1) * 2 ^ s < r"
  proof -
    from k(2) have "(k - 1) * c + 1 \<le> a" by simp
    then have "((k - 1) * c + 1) * 2 ^ s \<le> a * 2 ^ s" by (simp add: mult_right_mono)
    then have "((k - 1) * 2 ^ s) * c + 2 ^ s \<le> a * 2 ^ s" by (simp add: algebra_simps)
    with assms(2) show ?thesis unfolding r_def using c_small by (rule round_half_even_gt)
  qed
  have k_le: "k \<le> a"
  proof -
    have "(k - 1) * c < a * c"
    proof -
      have "a * 1 \<le> a * c" using a(1) assms(2) by (intro mult_left_mono) simp_all
      with k(2) show ?thesis by simp
    qed
    then have "k - 1 < a" using assms(2) by (simp add: mult_less_cancel_right)
    then show ?thesis by simp
  qed
  have no_overflow: "\<not> le_pow2 1024 (r * 2 ^ 0) (2 ^ s)"
  proof -
    have "r \<le> k * 2 ^ s" by (rule r_le)
    also have "\<dots> \<le> a * 2 ^ s" using k_le by (simp add: mult_right_mono)
    also have "\<dots> < 2 ^ 53 * 2 ^ s" using a(2) by simp
    also have "\<dots> \<le> 2 ^ 1024 * (2::int) ^ s"
      by (intro mult_right_mono power_increasing) simp_all
    finally have "r < 2 ^ s * 2 ^ 1024" by (simp add: mult.commute)
    then show ?thesis by (simp add: le_pow2_def)
  qed
  have td: "true_divide a c = Inr (r, - int s)"
    using a(1) assms(2) no_overflow
    by (simp add: true_divide_def Let_def x r_def)
  have "math_ceil (r, - int s) = k"
  proof (cases "s = 0")
    case True
    with r_le r_gt have "r = k" by simp
    with True show ?thesis by (simp add: math_ceil_def)
  next
    case False
    have "- ((- r) div 2 ^ s) = k"
      using r_gt r_le by (intro ceiling_quotient_unique) simp_all
    with False show ?thesis by (simp add: math_ceil_def)
  qed
  with td show ?thesis by (simp add: num_chunks_def a_def k_def)
qed

lemma num_chunks_zero: "c \<noteq> 0 \<Longrightarrow> num_chunks 0 c = Inr 0"
  by (simp add: num_chunks_def true_divide_def math_ceil_def)

text \<open>
  A quotient below \<open>2^-1075\<close>, half the least positive double, is rounded to \<open>0.0\<close>,
  and the number of chunks is 0.
\<close>

lemma num_chunks_underflow:
  assumes "0 < n" "int n * 2 ^ 1075 < c"
  shows "num_chunks n c = Inr 0"
proof -
  define a where "a = int n"
  define P :: int where "P = 2 ^ 1074"
  have a: "0 < a" using assms(1) by (simp add: a_def)
  have P: "0 < P" by (simp add: P_def)
  have P2: "(2::int) ^ 1075 = 2 * P" unfolding P_def by (simp only: power_Suc [symmetric]) simp
  have ac: "a * (2 * P) < c" using assms(2) by (simp only: a_def P2)
  have "a * 1 \<le> a * (2 * P)" using a P by (intro mult_left_mono) simp_all
  then have "a \<le> a * (2 * P)" by (simp only: mult_1_right)
  with ac a have c: "0 < c" "a < c" by linarith+
  have la: "1 \<le> bitlen a" using a by (simp add: bitlen_alt_def)
  have d: "bitlen a - bitlen c \<le> - 1075"
  proof (rule ccontr)
    assume "\<not> bitlen a - bitlen c \<le> - 1075"
    then have le: "nat (bitlen c) \<le> nat (bitlen a - 1) + 1075" using la by simp
    from bitlen_bounds [OF a] have "2 ^ nat (bitlen a - 1) \<le> a" by simp
    then have "2 ^ nat (bitlen a - 1) * (2::int) ^ 1075 \<le> a * 2 ^ 1075"
      by (rule mult_right_mono) simp
    also have "\<dots> < c" using ac by (simp only: P2)
    also from bitlen_bounds [OF c(1)] have "c < 2 ^ nat (bitlen c)" by simp
    finally have "(2::int) ^ (nat (bitlen a - 1) + 1075) < 2 ^ nat (bitlen c)"
      by (simp only: power_add)
    then have "nat (bitlen a - 1) + 1075 < nat (bitlen c)"
      by (simp only: power_strict_increasing_iff one_less_numeral_iff semiring_norm)
    with le show False by simp
  qed
  have "binade a c \<le> bitlen a - bitlen c" by (simp add: binade_def Let_def)
  with d have b: "binade a c \<le> - 1075" by simp
  then have x: "max (binade a c) (- 1022) - 52 = - 1074" by simp
  have nx: "nat (- (- 1074 :: int)) = 1074" "nat (- 1074 :: int) = 0" by simp_all
  have lt: "a * P < c" "2 * (a * P) < c"
  proof -
    show "2 * (a * P) < c" using ac by (simp only: mult.assoc mult.left_commute)
    moreover have "0 \<le> a * P" using a P by simp
    ultimately show "a * P < c" by simp
  qed
  have nn: "0 \<le> a * P" using a P by simp
  have m: "round_half_even (a * P) c = 0"
    using lt nn c(1) by (simp add: round_half_even_def Let_def)
  have ov: "\<not> le_pow2 1024 (0 * 2 ^ 0) P" using P by (simp add: le_pow2_def)
  have "true_divide a c = Inr (0, - 1074)"
    using a c(1) m ov
    by (simp only: true_divide_def Let_def x nx abs_of_pos P_def [symmetric] power_0 mult_1_right)
       simp
  then show ?thesis by (simp add: num_chunks_def math_ceil_def a_def)
qed

subsection \<open>The chunks of a run without reused predictions\<close>

text \<open>
  C5 (amended): on a run without reused predictions, with a positive chunk size \<open>C\<close>
  below \<open>2^53\<close> and fewer than \<open>2^53\<close> peptides, a peptide list that is not empty is
  cut into chunks that are consecutive segments of the list in order (their
  concatenation is the list), each paired with all alleles, and the number \<open>n\<close> of
  chunks is the ceiling of \<open>N / C\<close>, the one \<open>n\<close> with
  \<open>(n - 1) * C < N \<le> n * C\<close>. For an empty peptide list the split is asked for zero
  sections and raises ValueError: no work items are produced and the run stops.
\<close>

theorem fresh_work_items_partition:
  assumes "0 < chunk_size" "chunk_size < 2 ^ 53" "int (length peps) < 2 ^ 53"
  shows "(peps \<noteq> [] \<longrightarrow>
            (\<exists>items. fresh_work_items peps als chunk_size = Inr items \<and>
               concat (map peptides items) = peps \<and>
               list_all (\<lambda>w. alleles w = als) items \<and>
               int (length peps) \<le> int (length items) * chunk_size \<and>
               (int (length items) - 1) * chunk_size < int (length peps))) \<and>
         (peps = [] \<longrightarrow> fresh_work_items peps als chunk_size = Inl ValueError)"
proof (intro conjI impI)
  assume ne: "peps \<noteq> []"
  let ?n = "- ((- int (length peps)) div chunk_size)"
  have c: "int (length peps) \<le> ?n * chunk_size" "(?n - 1) * chunk_size < int (length peps)"
    using ceiling_quotient [OF assms(1), of "int (length peps)"] by simp_all
  have nc: "num_chunks (length peps) chunk_size = Inr ?n"
    using ne assms by (intro num_chunks_exact) simp_all
  have "0 < ?n"
  proof (rule ccontr)
    assume "\<not> 0 < ?n"
    then have "?n * chunk_size \<le> 0" using assms(1) by (simp add: mult_le_0_iff)
    moreover have "0 < int (length peps)" using ne by simp
    ultimately show False using c(1) by linarith
  qed
  then obtain chunks where s: "array_split peps ?n = Inr chunks" "concat chunks = peps"
    "int (length chunks) = ?n"
    using array_split_parts by blast
  let ?items = "map (\<lambda>chunk_peptides. \<lparr>alleles = als, peptides = chunk_peptides\<rparr>) chunks"
  have "fresh_work_items peps als chunk_size = Inr ?items"
    using nc s(1) by (simp add: fresh_work_items_def)
  moreover have "concat (map peptides ?items) = peps"
    using s(2) by (simp add: comp_def)
  moreover have "list_all (\<lambda>w. alleles w = als) ?items" by (simp add: list_all_iff)
  moreover have "int (length peps) \<le> int (length ?items) * chunk_size"
    "(int (length ?items) - 1) * chunk_size < int (length peps)"
    using c s(3) by simp_all
  ultimately show "\<exists>items. fresh_work_items peps als chunk_size = Inr items \<and>
               concat (map peptides items) = peps \<and>
               list_all (\<lambda>w. alleles w = als) items \<and>
               int (length peps) \<le> int (length items) * chunk_size \<and>
               (int (length items) - 1) * chunk_size < int (length peps)"
    by blast
next
  assume "peps = []"
  then show "fresh_work_items peps als chunk_size = Inl ValueError"
    using assms(1) by (simp add: fresh_work_items_def num_chunks_zero array_split_def)
qed

theorem fresh_work_items_partition_witness:
  "(0::int) < 2 \<and> (2::int) < 2 ^ 53 \<and>
   int (length [''SIINFEKL'', ''AAAAAAAA'', ''ACDEFGHI'']) < 2 ^ 53 \<and>
   [''SIINFEKL'', ''AAAAAAAA'', ''ACDEFGHI''] \<noteq> [] \<and>
   fresh_work_items [''SIINFEKL'', ''AAAAAAAA'', ''ACDEFGHI''] [''HLA-A*02:01''] 2 =
     Inr [\<lparr>alleles = [''HLA-A*02:01''], peptides = [''SIINFEKL'', ''AAAAAAAA'']\<rparr>,
          \<lparr>alleles = [''HLA-A*02:01''], peptides = [''ACDEFGHI'']\<rparr>] \<and>
   (\<exists>items. fresh_work_items [''SIINFEKL'', ''AAAAAAAA'', ''ACDEFGHI''] [''HLA-A*02:01''] 2 =
        Inr items \<and>
      concat (map peptides items) = [''SIINFEKL'', ''AAAAAAAA'', ''ACDEFGHI''] \<and>
      int (length [''SIINFEKL'', ''AAAAAAAA'', ''ACDEFGHI'']) \<le> int (length items) * 2 \<and>
      (int (length items) - 1) * 2 < int (length [''SIINFEKL'', ''AAAAAAAA'', ''ACDEFGHI''])) \<and>
   fresh_work_items [] [''HLA-A*02:01''] 2 = Inl ValueError"
proof -
  have h: "(0::int) < 2" by simp
  have h2: "(2::int) < 2 ^ 53" by simp
  have h3: "int (length [''SIINFEKL'', ''AAAAAAAA'', ''ACDEFGHI'']) < 2 ^ 53" by simp
  have h4: "int (length ([]::string list)) < 2 ^ 53" by simp
  have ne: "[''SIINFEKL'', ''AAAAAAAA'', ''ACDEFGHI''] \<noteq> []" by simp
  have e: "fresh_work_items [''SIINFEKL'', ''AAAAAAAA'', ''ACDEFGHI''] [''HLA-A*02:01''] 2 =
     Inr [\<lparr>alleles = [''HLA-A*02:01''], peptides = [''SIINFEKL'', ''AAAAAAAA'']\<rparr>,
          \<lparr>alleles = [''HLA-A*02:01''], peptides = [''ACDEFGHI'']\<rparr>]"
    by code_simp
  from fresh_work_items_partition [OF h h2 h3, of "[''HLA-A*02:01'']"] ne
  have a: "\<exists>items. fresh_work_items [''SIINFEKL'', ''AAAAAAAA'', ''ACDEFGHI''] [''HLA-A*02:01''] 2 =
        Inr items \<and>
      concat (map peptides items) = [''SIINFEKL'', ''AAAAAAAA'', ''ACDEFGHI''] \<and>
      int (length [''SIINFEKL'', ''AAAAAAAA'', ''ACDEFGHI'']) \<le> int (length items) * 2 \<and>
      (int (length items) - 1) * 2 < int (length [''SIINFEKL'', ''AAAAAAAA'', ''ACDEFGHI''])"
    by blast
  from fresh_work_items_partition [OF h h2 h4, of "[''HLA-A*02:01'']"]
  have b: "fresh_work_items [] [''HLA-A*02:01''] 2 = Inl ValueError" by simp
  from h h2 h3 ne e a b show ?thesis by blast
qed

text \<open>
  The claim as stated fails for an empty peptide list: with the default chunk size the
  result is the exception, not an empty list of chunks.
\<close>

theorem fresh_split_of_no_peptides_raises:
  "fresh_work_items [] [''HLA-A*02:01''] 100000 = Inl ValueError"
  by code_simp

text \<open>
  The bound on the chunk size matters: for a chunk size above \<open>N * 2^1075\<close> the float
  quotient is \<open>0.0\<close>, the split is asked for zero sections again, and the run stops
  with ValueError although there are peptides.
\<close>

lemma fresh_work_items_huge_chunk_size:
  assumes "peps \<noteq> []" "int (length peps) * 2 ^ 1075 < chunk_size"
  shows "fresh_work_items peps als chunk_size = Inl ValueError"
proof -
  from assms(1) have "0 < length peps" by simp
  from num_chunks_underflow [OF this assms(2)] show ?thesis
    by (simp add: fresh_work_items_def array_split_def)
qed

subsection \<open>Packing work items into tasks\<close>

lemma pack_inv_step:
  assumes "pack_inv chunk_size st"
  shows "pack_inv chunk_size (pack_step chunk_size st w)"
proof -
  obtain tasks l where st: "st = (tasks, l)" by (cases st) auto
  show ?thesis
  proof (cases l)
    case None
    with assms st show ?thesis
      by (auto simp: pack_inv_def pack_step_def task_ok_def task_peptides_def)
  next
    case (Some n)
    with assms st have ne: "tasks \<noteq> []" and n: "n = task_peptides (last tasks)"
      and ok: "\<forall>t \<in> set tasks. work_item_dicts t \<noteq> [] \<and> task_ok chunk_size t"
      by (auto simp: pack_inv_def)
    from ne have bl: "set (butlast tasks) \<subseteq> set tasks" by (simp add: in_set_butlastD subsetI)
    show ?thesis
    proof (cases "int (length (peptides w)) + int n < chunk_size")
      case True
      let ?t = "\<lparr>work_item_dicts = work_item_dicts (last tasks) @ [w]\<rparr>"
      have "task_peptides ?t = n + length (peptides w)"
        by (simp add: task_peptides_def n)
      with True have "task_ok chunk_size ?t" by (simp add: task_ok_def)
      with True Some st ok bl show ?thesis
        by (auto simp: pack_inv_def pack_step_def task_peptides_def n)
    next
      case False
      with Some st ok ne show ?thesis
        by (auto simp: pack_inv_def pack_step_def task_ok_def task_peptides_def)
    qed
  qed
qed

lemma pack_inv_foldl:
  "pack_inv chunk_size st \<Longrightarrow> pack_inv chunk_size (foldl (pack_step chunk_size) st ws)"
  by (induction ws arbitrary: st) (simp_all add: pack_inv_step)

lemma pack_inv_make_tasks:
  "pack_inv chunk_size (foldl (pack_step chunk_size) ([], None) ws)"
  by (rule pack_inv_foldl) (simp add: pack_inv_def)

text \<open>
  C4: for every list of work items and every chunk size \<open>C\<close>, every task that the
  packing of lines 291-306 builds has fewer than \<open>C\<close> peptides in total, or consists of
  exactly one work item that has \<open>C\<close> peptides or more.
\<close>

theorem make_tasks_bound:
  "list_all (\<lambda>t. int (task_peptides t) < chunk_size \<or>
       (\<exists>w. work_item_dicts t = [w] \<and> chunk_size \<le> int (length (peptides w))))
     (make_tasks chunk_size work_items)"
proof -
  let ?st = "foldl (pack_step chunk_size) ([], None)
               (sort_key (\<lambda>d. length (peptides d)) work_items)"
  have "pack_inv chunk_size ?st" by (rule pack_inv_make_tasks)
  then have "\<forall>t \<in> set (fst ?st). task_ok chunk_size t"
    by (cases ?st) (auto simp: pack_inv_def)
  then show ?thesis by (simp add: make_tasks_def list_all_iff task_ok_def)
qed

theorem make_tasks_bound_witness:
  "make_tasks 3
     [\<lparr>alleles = [''HLA-A*02:01''], peptides = [''SIINFEKL'', ''AAAAAAAA''], work_item_num = 0\<rparr>,
      \<lparr>alleles = [''HLA-A*02:01''], peptides = [''ACDEFGHI''], work_item_num = 1\<rparr>,
      \<lparr>alleles = [''HLA-B*07:02''], peptides = [''ACDEFGHI''], work_item_num = 2\<rparr>,
      \<lparr>alleles = [''HLA-B*07:02''],
       peptides = [''SIINFEKL'', ''AAAAAAAA'', ''ACDEFGHI'', ''KLMNPQRS''], work_item_num = 3\<rparr>] =
     [\<lparr>work_item_dicts =
         [\<lparr>alleles = [''HLA-A*02:01''], peptides = [''ACDEFGHI''], work_item_num = 1\<rparr>,
          \<lparr>alleles = [''HLA-B*07:02''], peptides = [''ACDEFGHI''], work_item_num = 2\<rparr>]\<rparr>,
      \<lparr>work_item_dicts =
         [\<lparr>alleles = [''HLA-A*02:01''], peptides = [''SIINFEKL'', ''AAAAAAAA''],
           work_item_num = 0\<rparr>]\<rparr>,
      \<lparr>work_item_dicts =
         [\<lparr>alleles = [''HLA-B*07:02''],
           peptides = [''SIINFEKL'', ''AAAAAAAA'', ''ACDEFGHI'', ''KLMNPQRS''],
           work_item_num = 3\<rparr>]\<rparr>] \<and>
   list_all (\<lambda>t. int (task_peptides t) < 3 \<or>
       (\<exists>w. work_item_dicts t = [w] \<and> 3 \<le> int (length (peptides w))))
     (make_tasks 3
       [\<lparr>alleles = [''HLA-A*02:01''], peptides = [''SIINFEKL'', ''AAAAAAAA''], work_item_num = 0\<rparr>,
        \<lparr>alleles = [''HLA-A*02:01''], peptides = [''ACDEFGHI''], work_item_num = 1\<rparr>,
        \<lparr>alleles = [''HLA-B*07:02''], peptides = [''ACDEFGHI''], work_item_num = 2\<rparr>,
        \<lparr>alleles = [''HLA-B*07:02''],
         peptides = [''SIINFEKL'', ''AAAAAAAA'', ''ACDEFGHI'', ''KLMNPQRS''], work_item_num = 3\<rparr>])"
proof (rule conjI)
  show "make_tasks 3
     [\<lparr>alleles = [''HLA-A*02:01''], peptides = [''SIINFEKL'', ''AAAAAAAA''], work_item_num = 0\<rparr>,
      \<lparr>alleles = [''HLA-A*02:01''], peptides = [''ACDEFGHI''], work_item_num = 1\<rparr>,
      \<lparr>alleles = [''HLA-B*07:02''], peptides = [''ACDEFGHI''], work_item_num = 2\<rparr>,
      \<lparr>alleles = [''HLA-B*07:02''],
       peptides = [''SIINFEKL'', ''AAAAAAAA'', ''ACDEFGHI'', ''KLMNPQRS''], work_item_num = 3\<rparr>] =
     [\<lparr>work_item_dicts =
         [\<lparr>alleles = [''HLA-A*02:01''], peptides = [''ACDEFGHI''], work_item_num = 1\<rparr>,
          \<lparr>alleles = [''HLA-B*07:02''], peptides = [''ACDEFGHI''], work_item_num = 2\<rparr>]\<rparr>,
      \<lparr>work_item_dicts =
         [\<lparr>alleles = [''HLA-A*02:01''], peptides = [''SIINFEKL'', ''AAAAAAAA''],
           work_item_num = 0\<rparr>]\<rparr>,
      \<lparr>work_item_dicts =
         [\<lparr>alleles = [''HLA-B*07:02''],
           peptides = [''SIINFEKL'', ''AAAAAAAA'', ''ACDEFGHI'', ''KLMNPQRS''],
           work_item_num = 3\<rparr>]\<rparr>]"
    by code_simp
qed (rule make_tasks_bound)

lemma pack_step_concat:
  assumes "pack_inv chunk_size st"
  shows "concat (map work_item_dicts (fst (pack_step chunk_size st w))) =
         concat (map work_item_dicts (fst st)) @ [w]"
proof -
  obtain tasks l where st: "st = (tasks, l)" by (cases st) auto
  show ?thesis
  proof (cases l)
    case None
    with st show ?thesis by (simp add: pack_step_def)
  next
    case (Some n)
    with assms st have ne: "tasks \<noteq> []" by (simp add: pack_inv_def)
    have "concat (map work_item_dicts (butlast tasks @ [last tasks])) =
        concat (map work_item_dicts (butlast tasks)) @ work_item_dicts (last tasks)"
      by simp
    then have "concat (map work_item_dicts tasks) =
        concat (map work_item_dicts (butlast tasks)) @ work_item_dicts (last tasks)"
      by (simp only: append_butlast_last_id [OF ne])
    with Some st show ?thesis by (simp add: pack_step_def)
  qed
qed

lemma foldl_pack_concat:
  "pack_inv chunk_size st \<Longrightarrow>
   concat (map work_item_dicts (fst (foldl (pack_step chunk_size) st ws))) =
   concat (map work_item_dicts (fst st)) @ ws"
proof (induction ws arbitrary: st)
  case Nil
  then show ?case by simp
next
  case (Cons w ws)
  from Cons.prems have "pack_inv chunk_size (pack_step chunk_size st w)"
    by (rule pack_inv_step)
  from Cons.IH [OF this] Cons.prems show ?case by (simp add: pack_step_concat)
qed

lemma make_tasks_concat:
  "concat (map work_item_dicts (make_tasks chunk_size ws)) =
   sort_key (\<lambda>d. length (peptides d)) ws"
  unfolding make_tasks_def by (subst foldl_pack_concat) (simp_all add: pack_inv_def)

lemma work_item_num_number_work_items:
  "map work_item_num (number_work_items ws) = [0 ..< length ws]"
  by (rule nth_equalityI) (simp_all add: number_work_items_def nth_enumerate_eq)

text \<open>
  C9: the \<open>n\<close> work items get the numbers \<open>0 .. n - 1\<close> in order before packing;
  the tasks taken together hold every numbered work item exactly once (as a multiset they
  are the numbered work items, and no number occurs twice); and no task is empty.
\<close>

theorem make_tasks_partition:
  "map work_item_num (number_work_items ws) = [0 ..< length ws] \<and>
   mset (concat (map work_item_dicts (make_tasks chunk_size (number_work_items ws)))) =
     mset (number_work_items ws) \<and>
   distinct (map work_item_num
     (concat (map work_item_dicts (make_tasks chunk_size (number_work_items ws))))) \<and>
   list_all (\<lambda>t. work_item_dicts t \<noteq> []) (make_tasks chunk_size (number_work_items ws))"
proof -
  let ?ws = "number_work_items ws"
  let ?key = "\<lambda>d::numbered_work_item. length (peptides d)"
  have nums: "map work_item_num ?ws = [0 ..< length ws]"
    by (rule work_item_num_number_work_items)
  have c: "concat (map work_item_dicts (make_tasks chunk_size ?ws)) = sort_key ?key ?ws"
    by (rule make_tasks_concat)
  have m: "mset (sort_key ?key ?ws) = mset ?ws" by simp
  have "mset (map work_item_num (sort_key ?key ?ws)) = mset (map work_item_num ?ws)"
    by simp
  then have "distinct (map work_item_num (sort_key ?key ?ws)) =
             distinct (map work_item_num ?ws)"
    by (rule mset_eq_imp_distinct_iff)
  then have d: "distinct (map work_item_num (sort_key ?key ?ws))" by (simp add: nums)
  let ?st = "foldl (pack_step chunk_size) ([], None) (sort_key ?key ?ws)"
  have "pack_inv chunk_size ?st" by (rule pack_inv_make_tasks)
  then have "\<forall>t \<in> set (fst ?st). work_item_dicts t \<noteq> []"
    by (cases ?st) (auto simp: pack_inv_def)
  then have e: "list_all (\<lambda>t. work_item_dicts t \<noteq> []) (make_tasks chunk_size ?ws)"
    by (simp add: make_tasks_def list_all_iff)
  from nums c m d e show ?thesis by simp
qed

theorem make_tasks_partition_witness:
  "map work_item_num (number_work_items
     [\<lparr>alleles = [''HLA-A*02:01''], peptides = [''SIINFEKL'', ''AAAAAAAA'']\<rparr>,
      \<lparr>alleles = [''HLA-A*02:01''], peptides = [''ACDEFGHI'']\<rparr>,
      \<lparr>alleles = [''HLA-B*07:02''], peptides = [''ACDEFGHI'']\<rparr>]) = [0, 1, 2] \<and>
   mset (concat (map work_item_dicts (make_tasks 3 (number_work_items
     [\<lparr>alleles = [''HLA-A*02:01''], peptides = [''SIINFEKL'', ''AAAAAAAA'']\<rparr>,
      \<lparr>alleles = [''HLA-A*02:01''], peptides = [''ACDEFGHI'']\<rparr>,
      \<lparr>alleles = [''HLA-B*07:02''], peptides = [''ACDEFGHI'']\<rparr>])))) =
   mset (number_work_items
     [\<lparr>alleles = [''HLA-A*02:01''], peptides = [''SIINFEKL'', ''AAAAAAAA'']\<rparr>,
      \<lparr>alleles = [''HLA-A*02:01''], peptides = [''ACDEFGHI'']\<rparr>,
      \<lparr>alleles = [''HLA-B*07:02''], peptides = [''ACDEFGHI'']\<rparr>]) \<and>
   list_all (\<lambda>t. work_item_dicts t \<noteq> []) (make_tasks 3 (number_work_items
     [\<lparr>alleles = [''HLA-A*02:01''], peptides = [''SIINFEKL'', ''AAAAAAAA'']\<rparr>,
      \<lparr>alleles = [''HLA-A*02:01''], peptides = [''ACDEFGHI'']\<rparr>,
      \<lparr>alleles = [''HLA-B*07:02''], peptides = [''ACDEFGHI'']\<rparr>]))"
  using make_tasks_partition [of
     "[\<lparr>alleles = [''HLA-A*02:01''], peptides = [''SIINFEKL'', ''AAAAAAAA'']\<rparr>,
      \<lparr>alleles = [''HLA-A*02:01''], peptides = [''ACDEFGHI'']\<rparr>,
      \<lparr>alleles = [''HLA-B*07:02''], peptides = [''ACDEFGHI'']\<rparr>]" 3]
  by (simp add: upt_rec)

section \<open>Properties of the merge\<close>

lemma row_position_nth:
  "p \<in> set idx \<Longrightarrow> row_position idx p < length idx \<and> idx ! row_position idx p = p"
  by (induction idx) (auto simp: row_position_def)

lemma positions_nth:
  "i \<in> set (positions idx p) \<Longrightarrow> i < length idx \<and> idx ! i = p"
  by (simp add: positions_def)

lemma label_indexer_nth:
  "i \<in> set (label_indexer idx labels) \<Longrightarrow> i < length idx \<and> idx ! i \<in> set labels"
  by (auto simp: label_indexer_def dest: positions_nth)

lemma row_position_not_indexed:
  assumes "p \<in> set idx" "p \<notin> set labels"
  shows "row_position idx p \<notin> set (label_indexer idx labels)"
proof
  assume "row_position idx p \<in> set (label_indexer idx labels)"
  then have "idx ! row_position idx p \<in> set labels" by (simp add: label_indexer_nth)
  with assms show False by (simp add: row_position_nth)
qed

lemma assign_positions_Cons:
  "assign_positions (i # indexer) (v # vs) old = assign_positions indexer vs (old[i := v])"
  by (simp add: assign_positions_def)

lemma assign_positions_other:
  "k \<notin> set indexer \<Longrightarrow> assign_positions indexer vals old ! k = old ! k"
proof (induction indexer arbitrary: vals old)
  case Nil
  then show ?case by (simp add: assign_positions_def)
next
  case (Cons i indexer)
  show ?case
  proof (cases vals)
    case Nil
    then show ?thesis by (simp add: assign_positions_def)
  next
    case (Cons v vs)
    from Cons.prems have "k \<noteq> i" "k \<notin> set indexer" by auto
    with Cons.IH [of vs "old[i := v]"] show ?thesis
      by (simp add: Cons assign_positions_Cons)
  qed
qed

lemma map_of_update_column:
  "map_of (map (\<lambda>(c', old). if c' = c then (c', f old) else (c', old)) xs) k =
     (if k = c then map_option f (map_of xs k) else map_of xs k)"
  by (induction xs) auto

lemma loc_assign_index:
  "loc_assign df labels c vals = Inr df' \<Longrightarrow> index df' = index df"
  by (auto simp: loc_assign_def Let_def split: if_splits)

lemma loc_assign_columns:
  "loc_assign df labels c vals = Inr df' \<Longrightarrow> c \<in> set (columns df) \<Longrightarrow> columns df' = columns df"
  by (auto simp: loc_assign_def Let_def columns_def split: if_splits)

lemma loc_assign_frame:
  assumes "loc_assign df labels c vals = Inr df'" "c \<in> set (columns df)"
    "\<not> (p \<in> set labels \<and> k = c)"
  shows "cell_at df' p k = cell_at df p k"
proof -
  from assms(1,2) obtain vals' where
    df': "df' = df\<lparr>data := map (\<lambda>(c', old). if c' = c
        then (c', assign_positions (label_indexer (index df) labels) vals' old)
        else (c', old)) (data df)\<rparr>"
    by (auto simp: loc_assign_def Let_def split: if_splits)
  show ?thesis
  proof (cases "k = c")
    case False
    then show ?thesis
      by (simp add: df' cell_at_def map_of_update_column split: option.splits)
  next
    case True
    with assms(3) have p: "p \<notin> set labels" by simp
    show ?thesis
    proof (cases "p \<in> set (index df)")
      case False
      then show ?thesis
        by (simp add: df' cell_at_def map_of_update_column split: option.splits)
    next
      case pin: True
      from row_position_not_indexed [OF pin p]
      have "assign_positions (label_indexer (index df) labels) vals' old !
              row_position (index df) p = old ! row_position (index df) p" for old
        by (rule assign_positions_other)
      then show ?thesis
        by (simp add: df' cell_at_def map_of_update_column True split: option.splits)
    qed
  qed
qed

lemma map_fst_dict_set:
  "k \<in> set (map fst d) \<Longrightarrow> map fst (dict_set d k v) = map fst d"
  by (induction d) (auto simp: dict_set_def)

lemma merge_column_frame:
  assumes "merge_column clock manifest_df work_items num st (c, predictions) = Inr st'"
    "merge_inv st"
  shows "merge_inv st' \<and> index (result_df st') = index (result_df st) \<and>
         columns (result_df st') = columns (result_df st) \<and>
         (\<forall>p k. \<not> (p \<in> Str ` set (peptides (work_items ! num)) \<and> k = c) \<longrightarrow>
            cell_at (result_df st') p k = cell_at (result_df st) p k)"
proof -
  from assms(1) obtain df where
    la: "loc_assign (result_df st) (map Str (peptides (work_items ! num))) c predictions
           = Inr df"
    by (auto simp: merge_column_def split: if_splits sum.splits)
  from assms(1) la obtain t where
    t: "map_of (last_write_time_per_column st) c = Some t"
    by (auto simp: merge_column_def Let_def split: if_splits option.splits)
  from t have ckey: "c \<in> set (map fst (last_write_time_per_column st))"
    by (metis map_of_eq_None_iff option.distinct(1) set_map)
  from assms(1) la t have df: "result_df st' = df"
    by (auto simp: merge_column_def Let_def split: if_splits sum.splits)
  from assms(1) la t have
    "last_write_time_per_column st' = last_write_time_per_column st \<or>
     (\<exists>v. last_write_time_per_column st' = dict_set (last_write_time_per_column st) c v)"
    by (auto simp: merge_column_def Let_def split: if_splits sum.splits)
  moreover have "map fst (dict_set (last_write_time_per_column st) c v) =
      map fst (last_write_time_per_column st)" for v
    using ckey by (rule map_fst_dict_set)
  ultimately have keys:
    "map fst (last_write_time_per_column st') = map fst (last_write_time_per_column st)"
    by metis
  from ckey assms(2) have c: "c \<in> set (columns (result_df st))" by (auto simp: merge_inv_def)
  from loc_assign_columns [OF la c] loc_assign_index [OF la] loc_assign_frame [OF la c]
    assms(2) df keys
  show ?thesis by (simp add: merge_inv_def)
qed

lemma merge_result_frame:
  assumes "merge_result clock manifest_df work_items st (num, col_to_predictions) = Inr st'"
    "merge_inv st"
  shows "merge_inv st' \<and> index (result_df st') = index (result_df st) \<and>
         columns (result_df st') = columns (result_df st) \<and>
         (\<forall>p k. \<not> (p \<in> Str ` set (peptides (work_items ! num)) \<and>
                   k \<in> fst ` set col_to_predictions) \<longrightarrow>
            cell_at (result_df st') p k = cell_at (result_df st) p k)"
  using assms
proof (induction col_to_predictions arbitrary: st)
  case Nil
  then show ?case by simp
next
  case (Cons entry rest)
  obtain c predictions where e: "entry = (c, predictions)" by (cases entry) auto
  from Cons.prems(1) obtain st1 where
    m: "merge_column clock manifest_df work_items num st (c, predictions) = Inr st1"
    and r: "merge_result clock manifest_df work_items st1 (num, rest) = Inr st'"
    by (auto simp: e split: sum.splits)
  note f1 = merge_column_frame [OF m Cons.prems(2)]
  then have "merge_inv st1" by simp
  note f2 = Cons.IH [OF r this]
  show ?case
  proof (intro conjI allI impI)
    show "merge_inv st'" using f2 by simp
    show "index (result_df st') = index (result_df st)" using f1 f2 by simp
    show "columns (result_df st') = columns (result_df st)" using f1 f2 by simp
  next
    fix p k
    assume "\<not> (p \<in> Str ` set (peptides (work_items ! num)) \<and>
               k \<in> fst ` set (entry # rest))"
    then have "\<not> (p \<in> Str ` set (peptides (work_items ! num)) \<and> k = c)"
      "\<not> (p \<in> Str ` set (peptides (work_items ! num)) \<and> k \<in> fst ` set rest)"
      by (auto simp: e)
    with f1 f2 show "cell_at (result_df st') p k = cell_at (result_df st) p k" by simp
  qed
qed

text \<open>
  C10: the merge of one \<open>(work_item_num, col_to_predictions)\<close> result, when it goes
  through, leaves the row labels and the columns of the result matrix as they are, and
  every cell that is not both in a row of the work item's peptides and in a column of the
  result's mapping keeps its value. A merge goes through with one prediction per peptide
  and also with a single prediction, which is broadcast to the work item's rows. The
  hypothesis on the write times is what line 347 establishes before the first merge.
\<close>

theorem merge_result_changes_only_its_cells:
  assumes "merge_result clock manifest_df work_items st (num, col_to_predictions) = Inr st'"
    "set (map fst (last_write_time_per_column st)) \<subseteq> set (columns (result_df st))"
  shows "index (result_df st') = index (result_df st) \<and>
         columns (result_df st') = columns (result_df st) \<and>
         (\<forall>p c. \<not> (p \<in> Str ` set (peptides (work_items ! num)) \<and>
                   c \<in> fst ` set col_to_predictions) \<longrightarrow>
            cell_at (result_df st') p c = cell_at (result_df st) p c)"
proof -
  from assms(2) have "merge_inv st" by (simp add: merge_inv_def)
  from merge_result_frame [OF assms(1) this] show ?thesis by simp
qed

theorem merge_result_changes_only_its_cells_witness:
  "merge_result (\<lambda>k. 1000)
     (make_manifest [''HLA-A*02:01''] (PREDICTOR_TO_COLS Mhcflurry))
     (number_work_items
        [\<lparr>alleles = [''HLA-A*02:01''], peptides = [''SIINFEKL'', ''AAAAAAAA'']\<rparr>,
         \<lparr>alleles = [''HLA-A*02:01''], peptides = [''ACDEFGHI'']\<rparr>])
     \<lparr>result_df = nan_frame [Str ''SIINFEKL'', Str ''AAAAAAAA'', Str ''ACDEFGHI'']
                    [''HLA-A*02:01 affinity''],
      last_write_time_per_column = [(''HLA-A*02:01 affinity'', 0)],
      out_dir = \<lparr>peptides_csv = None, alleles_csv = None, arrays = []\<rparr>,
      clock_reads = 0\<rparr>
     (0, [(''HLA-A*02:01 affinity'', [Val 7])]) =
   Inr \<lparr>result_df = \<lparr>index = [Str ''SIINFEKL'', Str ''AAAAAAAA'', Str ''ACDEFGHI''],
                       data = [(''HLA-A*02:01 affinity'', [Val 7, Val 7, NaN])]\<rparr>,
        last_write_time_per_column = [(''HLA-A*02:01 affinity'', 1000)],
        out_dir = \<lparr>peptides_csv = None, alleles_csv = None,
                   arrays = [(''HLA-A02:01.affinity.npz'', Readable [Val 7, Val 7, NaN])]\<rparr>,
        clock_reads = 2\<rparr> \<and>
   cell_at \<lparr>index = [Str ''SIINFEKL'', Str ''AAAAAAAA'', Str ''ACDEFGHI''],
            data = [(''HLA-A*02:01 affinity'', [Val 7, Val 7, NaN])]\<rparr>
     (Str ''ACDEFGHI'') ''HLA-A*02:01 affinity'' =
   cell_at (nan_frame [Str ''SIINFEKL'', Str ''AAAAAAAA'', Str ''ACDEFGHI'']
              [''HLA-A*02:01 affinity''])
     (Str ''ACDEFGHI'') ''HLA-A*02:01 affinity''"
proof -
  let ?st = "\<lparr>result_df = nan_frame [Str ''SIINFEKL'', Str ''AAAAAAAA'', Str ''ACDEFGHI'']
                    [''HLA-A*02:01 affinity''],
      last_write_time_per_column = [(''HLA-A*02:01 affinity'', 0)],
      out_dir = \<lparr>peptides_csv = None, alleles_csv = None, arrays = []\<rparr>,
      clock_reads = 0\<rparr>"
  let ?st' = "\<lparr>result_df = \<lparr>index = [Str ''SIINFEKL'', Str ''AAAAAAAA'', Str ''ACDEFGHI''],
                       data = [(''HLA-A*02:01 affinity'', [Val 7, Val 7, NaN])]\<rparr>,
        last_write_time_per_column = [(''HLA-A*02:01 affinity'', 1000)],
        out_dir = \<lparr>peptides_csv = None, alleles_csv = None,
                   arrays = [(''HLA-A02:01.affinity.npz'', Readable [Val 7, Val 7, NaN])]\<rparr>,
        clock_reads = 2\<rparr>"
  let ?items = "number_work_items
        [\<lparr>alleles = [''HLA-A*02:01''], peptides = [''SIINFEKL'', ''AAAAAAAA'']\<rparr>,
         \<lparr>alleles = [''HLA-A*02:01''], peptides = [''ACDEFGHI'']\<rparr>]"
  have m: "merge_result (\<lambda>k. 1000)
     (make_manifest [''HLA-A*02:01''] (PREDICTOR_TO_COLS Mhcflurry)) ?items ?st
     (0, [(''HLA-A*02:01 affinity'', [Val 7])]) = Inr ?st'"
    by code_simp
  have k: "set (map fst (last_write_time_per_column ?st)) \<subseteq> set (columns (result_df ?st))"
    by (simp add: columns_def nan_frame_def)
  have i: "\<not> (Str ''ACDEFGHI'' \<in> Str ` set (peptides (?items ! 0)) \<and>
      ''HLA-A*02:01 affinity'' \<in> fst ` set [(''HLA-A*02:01 affinity'', [Val 7])])"
    by (simp add: number_work_items_def)
  from merge_result_changes_only_its_cells [OF m k] i
  have "cell_at (result_df ?st') (Str ''ACDEFGHI'') ''HLA-A*02:01 affinity'' =
        cell_at (result_df ?st) (Str ''ACDEFGHI'') ''HLA-A*02:01 affinity''"
    by blast
  with m show ?thesis by simp
qed

section \<open>Properties of the column store\<close>

lemma length_assign_positions [simp]:
  "length (assign_positions indexer vals old) = length old"
proof -
  have "length (foldl (\<lambda>column_array (i, v). column_array[i := v]) old ps) = length old"
    for ps :: "(nat \<times> cell) list"
    by (induction ps arbitrary: old) (auto split: prod.splits)
  then show ?thesis by (simp add: assign_positions_def)
qed

lemma assign_positions_at:
  assumes "distinct indexer" "length vals = length indexer" "k < length indexer"
    "\<And>i. i \<in> set indexer \<Longrightarrow> i < length old"
  shows "assign_positions indexer vals old ! (indexer ! k) = vals ! k"
  using assms
proof (induction indexer arbitrary: vals old k)
  case Nil
  then show ?case by simp
next
  case (Cons i indexer)
  from Cons.prems(2) obtain v vs where vals: "vals = v # vs" by (cases vals) auto
  from Cons.prems have i: "i \<notin> set indexer" "i < length old"
    and rest: "distinct indexer" "length vs = length indexer"
    by (auto simp: vals)
  show ?case
  proof (cases k)
    case 0
    have "assign_positions indexer vs (old[i := v]) ! i = (old[i := v]) ! i"
      using i(1) by (rule assign_positions_other)
    with i(2) show ?thesis by (simp add: 0 vals assign_positions_Cons)
  next
    case (Suc j)
    have "assign_positions indexer vs (old[i := v]) ! (indexer ! j) = vs ! j"
      using rest Cons.prems(3,4) by (intro Cons.IH) (auto simp: Suc)
    then show ?thesis by (simp add: Suc vals assign_positions_Cons)
  qed
qed

lemma assign_positions_all:
  assumes "length vals = n" "length old = n"
  shows "assign_positions [0 ..< n] vals old = vals"
proof (rule nth_equalityI)
  show "length (assign_positions [0 ..< n] vals old) = length vals" using assms by simp
next
  fix k assume "k < length (assign_positions [0 ..< n] vals old)"
  then have k: "k < n" using assms by simp
  have "assign_positions [0 ..< n] vals old ! ([0 ..< n] ! k) = vals ! k"
    using assms k by (intro assign_positions_at) simp_all
  with k show "assign_positions [0 ..< n] vals old ! k = vals ! k" by simp
qed

lemma filter_eq_upt: "k < n \<Longrightarrow> filter (\<lambda>i. i = k) [0 ..< n] = [k]"
  by (induction n) (auto simp: less_Suc_eq)

lemma positions_distinct:
  assumes "distinct idx" "k < length idx"
  shows "positions idx (idx ! k) = [k]"
proof -
  have "filter (\<lambda>i. idx ! i = idx ! k) [0 ..< length idx] =
        filter (\<lambda>i. i = k) [0 ..< length idx]"
    using assms by (intro filter_cong) (auto simp: nth_eq_iff_index_eq)
  with assms(2) show ?thesis by (simp add: positions_def filter_eq_upt)
qed

lemma label_indexer_self:
  assumes "distinct idx"
  shows "label_indexer idx idx = [0 ..< length idx]"
proof -
  have "map (positions idx) idx = map (positions idx) (map ((!) idx) [0 ..< length idx])"
    by (simp only: map_nth)
  also have "\<dots> = map (\<lambda>k. [k]) [0 ..< length idx]"
    using assms by (simp add: positions_distinct)
  finally have "label_indexer idx idx = concat (map (\<lambda>k. [k]) [0 ..< length idx])"
    by (simp only: label_indexer_def)
  then show ?thesis by simp
qed

lemma loc_assign_whole_column:
  assumes "distinct labels" "frame_ok labels df" "c \<in> set (columns df)"
    "length v = length labels"
  shows "loc_assign df labels c v =
           Inr (df\<lparr>data := map (\<lambda>(c', old). if c' = c then (c', v) else (c', old)) (data df)\<rparr>)"
proof -
  have idx: "index df = labels" using assms(2) by (simp add: frame_ok_def)
  have ix: "label_indexer labels labels = [0 ..< length labels]"
    using assms(1) by (rule label_indexer_self)
  have "(if c' = c then (c', assign_positions [0 ..< length labels] v old) else (c', old)) =
        (if c' = c then (c', v) else (c', old))" if "(c', old) \<in> set (data df)" for c' old
  proof -
    from that assms(2) have "length old = length labels"
      by (auto simp: frame_ok_def list_all_iff)
    with assms(4) show ?thesis by (simp add: assign_positions_all)
  qed
  then have "map (\<lambda>(c', old). if c' = c
                 then (c', assign_positions [0 ..< length labels] v old)
                 else (c', old)) (data df) =
        map (\<lambda>(c', old). if c' = c then (c', v) else (c', old)) (data df)"
    by (intro map_cong) auto
  with assms(3,4) show ?thesis
    by (simp add: loc_assign_def Let_def ix idx list_all_iff)
qed

lemma map_fst_update_column:
  "map fst (map (\<lambda>(c', old). if P c' then (c', f c') else (c', old)) xs) = map fst xs"
  by (induction xs) auto

lemma load_columns_whole:
  assumes "distinct peps"
    "\<And>v :: cell list. length v = length peps \<Longrightarrow>
       (case row_mask of None \<Rightarrow> Inr v | Some m \<Rightarrow> boolean_index v m) = Inr v"
    "\<And>r. r \<in> set rs \<Longrightarrow> map_of (arrays d) (path r) = Some (Readable (vals (col r)))"
    "\<And>c. length (vals c) = length peps"
    "frame_ok peps df" "col ` set rs \<subseteq> set (columns df)"
  shows "load_columns d row_mask peps rs df =
           Inr (df\<lparr>data := map (\<lambda>(c, old). if c \<in> col ` set rs then (c, vals c) else (c, old))
                               (data df)\<rparr>)"
  using assms(3,5,6)
proof (induction rs arbitrary: df)
  case Nil
  then show ?case by simp
next
  case (Cons r rs)
  let ?df = "df\<lparr>data := map (\<lambda>(c', old). if c' = col r then (c', vals (col r)) else (c', old))
                           (data df)\<rparr>"
  have a: "read_file (map_of (arrays d) (path r)) = Inr (vals (col r))"
    using Cons.prems(1) by (simp add: read_file_def)
  have m: "(case row_mask of None \<Rightarrow> Inr (vals (col r)) | Some m \<Rightarrow> boolean_index (vals (col r)) m)
           = Inr (vals (col r))"
    using assms(2,4) by simp
  have l: "loc_assign df peps (col r) (vals (col r)) = Inr ?df"
    using assms(1,4) Cons.prems by (intro loc_assign_whole_column) auto
  have ok: "frame_ok peps ?df"
    using Cons.prems(2) assms(4)
    by (auto simp: frame_ok_def list_all_iff split: if_splits)
  have "map fst (data ?df) = map fst (data df)"
    using map_fst_update_column [of "\<lambda>c'. c' = col r" "\<lambda>c'. vals (col r)" "data df"]
    by simp
  then have "columns ?df = columns df" by (simp only: columns_def)
  then have cs: "col ` set rs \<subseteq> set (columns ?df)"
    using Cons.prems(3) by simp
  have "load_columns d row_mask peps rs ?df =
     Inr (?df\<lparr>data := map (\<lambda>(c, old). if c \<in> col ` set rs then (c, vals c) else (c, old))
                               (data ?df)\<rparr>)"
    using Cons.prems(1) ok cs by (intro Cons.IH) auto
  moreover have "map (\<lambda>(c, old). if c \<in> col ` set rs then (c, vals c) else (c, old)) (data ?df)
      = map (\<lambda>(c, old). if c \<in> col ` set (r # rs) then (c, vals c) else (c, old)) (data df)"
    by (auto simp: comp_def split: prod.splits)
  ultimately show ?case using a m l by simp
qed

lemma map_of_replace:
  "map_of (map (\<lambda>(k', v'). if k' = k then (k', v) else (k', v')) d) x =
     (if x = k then (if k \<in> fst ` set d then Some v else None) else map_of d x)"
  by (induction d) force+

lemma map_of_dict_set: "map_of (dict_set d k v) = (map_of d)(k \<mapsto> v)"
proof (cases "k \<in> set (map fst d)")
  case True
  then show ?thesis by (auto simp: dict_set_def map_of_replace fun_eq_iff)
next
  case False
  then have "map_of d k = None" by (simp add: map_of_eq_None_iff)
  with False show ?thesis
    by (auto simp: dict_set_def map_add_def fun_eq_iff split: option.splits)
qed

lemma col_to_filename_row:
  assumes "distinct (map col manifest_df)" "r \<in> set manifest_df"
  shows "col_to_filename manifest_df (col r) = Inr (path r)"
proof -
  have "distinct (map fst (map (\<lambda>r. (col r, path r)) manifest_df))"
    using assms(1) by (simp add: comp_def)
  moreover have "(col r, path r) \<in> set (map (\<lambda>r. (col r, path r)) manifest_df)"
    using assms(2) by auto
  ultimately have "map_of (map (\<lambda>r. (col r, path r)) manifest_df) (col r) = Some (path r)"
    by (rule map_of_is_SomeI)
  then show ?thesis by (simp add: col_to_filename_def)
qed

lemma column_values_stored:
  "c \<in> set (columns df) \<Longrightarrow> column_values df c = Inr (stored_column df c)"
  by (auto simp: column_values_def stored_column_def columns_def map_of_eq_None_iff
      split: option.splits)

lemma length_stored_column:
  "frame_ok peps df \<Longrightarrow> length (stored_column df c) = length peps"
  by (auto simp: frame_ok_def stored_column_def list_all_iff split: option.splits
      dest!: map_of_SomeD)

lemma write_cols_rows:
  assumes "distinct (map col manifest_df)" "col ` set manifest_df \<subseteq> set (columns df)"
    "set rs \<subseteq> set manifest_df" "distinct (map path rs)"
  shows "\<exists>out'. write_cols manifest_df df out (map col rs) = Inr out' \<and>
           peptides_csv out' = peptides_csv out \<and> alleles_csv out' = alleles_csv out \<and>
           (\<forall>r \<in> set rs. map_of (arrays out') (path r) =
              Some (Readable (stored_column df (col r)))) \<and>
           (\<forall>f. f \<notin> path ` set rs \<longrightarrow> map_of (arrays out') f = map_of (arrays out) f)"
  using assms(3,4)
proof (induction rs arbitrary: out)
  case Nil
  then show ?case by simp
next
  case (Cons r rs)
  let ?out1 = "out\<lparr>arrays := dict_set (arrays out) (path r)
                                  (Readable (stored_column df (col r)))\<rparr>"
  from Cons.prems have r: "r \<in> set manifest_df" and fresh: "path r \<notin> path ` set rs"
    by auto
  have w: "write_col manifest_df df out (col r) = Inr ?out1"
    using r assms(1,2)
    by (simp add: write_col_def col_to_filename_row column_values_stored image_subset_iff)
  from Cons.prems have "set rs \<subseteq> set manifest_df" "distinct (map path rs)" by auto
  from Cons.IH [OF this, of ?out1] obtain out' where
    o: "write_cols manifest_df df ?out1 (map col rs) = Inr out'"
      "peptides_csv out' = peptides_csv out" "alleles_csv out' = alleles_csv out"
      "\<forall>r \<in> set rs. map_of (arrays out') (path r) =
         Some (Readable (stored_column df (col r)))"
      "\<forall>f. f \<notin> path ` set rs \<longrightarrow> map_of (arrays out') f = map_of (arrays ?out1) f"
    by auto
  have "write_cols manifest_df df out (map col (r # rs)) = Inr out'"
    using w o(1) by simp
  moreover have "map_of (arrays out') (path r) = Some (Readable (stored_column df (col r)))"
    using o(5) fresh by (simp add: map_of_dict_set)
  moreover have "map_of (arrays out') f = map_of (arrays out) f"
    if "f \<notin> path ` set (r # rs)" for f
    using o(5) that by (simp add: map_of_dict_set)
  ultimately show ?case using o(2,3,4) by auto
qed

lemma adjust_manifest_new:
  "has_kind mf \<Longrightarrow> has_col mf \<Longrightarrow> adjust_manifest mf = rows mf"
  by (simp add: adjust_manifest_def)

lemma data_from_stored:
  assumes "distinct (map fst xs)" 
  shows "map (\<lambda>c. (c, case map_of xs c of Some v \<Rightarrow> v | None \<Rightarrow> d)) (map fst xs) = xs"
proof -
  have "(case map_of xs (fst x) of Some v \<Rightarrow> v | None \<Rightarrow> d) = snd x" if "x \<in> set xs" for x
  proof -
    from that have "(fst x, snd x) \<in> set xs" by simp
    with assms have "map_of xs (fst x) = Some (snd x)" by (rule map_of_is_SomeI)
    then show ?thesis by simp
  qed
  then have "map (\<lambda>x. (fst x, case map_of xs (fst x) of Some v \<Rightarrow> v | None \<Rightarrow> d)) xs = map (\<lambda>x. x) xs"
    by (intro map_cong) auto
  then show ?thesis by (simp add: comp_def)
qed

lemma filled_frame:
  assumes "distinct (columns df)" "frame_ok peps df" "col ` set manifest_df = set (columns df)"
  shows "(nan_frame peps (columns df))
           \<lparr>data := map (\<lambda>(c, old). if c \<in> col ` set manifest_df
                                    then (c, stored_column df c) else (c, old))
                     (data (nan_frame peps (columns df)))\<rparr> = df"
proof -
  have "map (\<lambda>(c, old). if c \<in> col ` set manifest_df then (c, stored_column df c) else (c, old))
          (data (nan_frame peps (columns df))) =
        map (\<lambda>c. (c, stored_column df c)) (columns df)"
    using assms(3) by (simp add: nan_frame_def comp_def)
  also have "\<dots> = data df"
    using data_from_stored [of "data df" "replicate (length (index df)) NaN"] assms(1)
    by (simp add: columns_def stored_column_def)
  finally show ?thesis using assms(2) by (simp add: nan_frame_def frame_ok_def)
qed

lemma all_true_mask:
  "length xs = length m \<Longrightarrow> list_all (\<lambda>b. b) m \<Longrightarrow> map fst (filter snd (zip xs m)) = xs"
  by (induction xs m rule: list_induct2) auto

lemma frame_ok_nan_frame: "frame_ok peps (nan_frame peps cols)"
  by (simp add: frame_ok_def nan_frame_def list_all_iff)

lemma columns_nan_frame [simp]: "columns (nan_frame peps cols) = cols"
  by (simp add: columns_def nan_frame_def comp_def)

lemma index_nan_frame [simp]: "index (nan_frame peps cols) = peps"
  by (simp add: nan_frame_def)

lemma path_make_manifest:
  "map path (make_manifest als kinds) = map col_path (map col (make_manifest als kinds))"
  by (simp add: make_manifest_def map_concat comp_def)

lemma distinct_map_inner: "distinct (map f (map g xs)) \<Longrightarrow> distinct (map g xs)"
  by (induction xs) auto

lemma round_trip_rows:
  assumes "distinct peps" "read_csv_labels peps = map Str peps"
    "distinct (map col manifest_df)" "distinct (map path manifest_df)"
    "frame_ok (map Str peps) df" "columns df = map col manifest_df"
  shows "\<exists>out'. write_cols manifest_df df (init_out peps manifest_df out)
                   (columns df) = Inr out' \<and>
           load_results ((dirname, out') # fs) dirname None = Inr df \<and>
           load_results ((dirname, out') # fs) dirname
             (Some (nan_frame (map Str peps) (columns df))) = Inr df"
proof -
  let ?labels = "map Str peps"
  let ?cols = "columns df"
  let ?vals = "stored_column df"
  let ?nan = "nan_frame ?labels ?cols"
  have dl: "distinct ?labels" using assms(1) by (simp add: distinct_map inj_on_def)
  have rd: "read_csv_labels peps = ?labels" using assms(2) .
  have sub: "col ` set manifest_df \<subseteq> set ?cols" "col ` set manifest_df = set ?cols"
    using assms(6) by auto
  from write_cols_rows [OF assms(3) sub(1) subset_refl assms(4),
      of "init_out peps manifest_df out"]
  obtain out' where
    w: "write_cols manifest_df df (init_out peps manifest_df out) ?cols = Inr out'"
    and p: "peptides_csv out' = Some (Readable peps)"
    and a: "alleles_csv out' =
              Some (Readable \<lparr>has_kind = True, has_col = True, rows = manifest_df\<rparr>)"
    and f: "\<And>r. r \<in> set manifest_df \<Longrightarrow>
              map_of (arrays out') (path r) = Some (Readable (?vals (col r)))"
    by (auto simp: assms(6) init_out_def)
  have len: "\<And>c. length (?vals c) = length ?labels"
    using assms(5) by (rule length_stored_column)
  have filled: "?nan\<lparr>data := map (\<lambda>(c, old). if c \<in> col ` set manifest_df
                  then (c, ?vals c) else (c, old)) (data ?nan)\<rparr> = df"
    using assms(3,5,6) sub(2) by (intro filled_frame) simp_all
  have none: "load_columns out' None ?labels manifest_df ?nan = Inr df"
    using load_columns_whole [of ?labels None manifest_df out' ?vals ?nan]
      dl f len frame_ok_nan_frame sub(1) filled
    by simp
  let ?m = "map (\<lambda>p. p \<in> set (index ?nan)) ?labels"
  have m: "length ?labels = length ?m" "list_all (\<lambda>b. b) ?m"
    by (simp_all add: list_all_iff)
  have keep: "map fst (filter snd (zip ?labels ?m)) = ?labels"
    using m by (rule all_true_mask)
  have bi: "(case Some ?m of None \<Rightarrow> Inr v | Some m \<Rightarrow> boolean_index v m) = Inr v"
    if "length v = length ?labels" for v :: "cell list"
  proof -
    have "length v = length ?m" using that by simp
    from all_true_mask [OF this m(2)] that show ?thesis by (simp add: boolean_index_def)
  qed
  have some: "load_columns out' (Some ?m) ?labels manifest_df ?nan = Inr df"
    using load_columns_whole [of ?labels "Some ?m" manifest_df out' ?vals ?nan]
      dl bi f len frame_ok_nan_frame sub(1) filled
    by simp
  have flt: "filter (\<lambda>r. col r \<in> set (columns ?nan)) manifest_df = manifest_df"
    using sub(1) by (auto simp: filter_id_conv)
  have "load_results ((dirname, out') # fs) dirname None = Inr df"
    using p a none rd
    by (simp add: load_results_def read_file_def adjust_manifest_new assms(6) Let_def)
  moreover have "load_results ((dirname, out') # fs) dirname (Some ?nan) = Inr df"
    using p a some flt keep rd
    by (simp add: load_results_def read_file_def adjust_manifest_new Let_def)
  ultimately show ?thesis using w by blast
qed

text \<open>
  C6 (amended): take a result matrix as the script builds it: its peptides are distinct
  words over the amino-acid letters, its columns are those of the manifest of the run's
  alleles and predictor, and every column has one value per peptide, NaN or not. Let the
  columns have pairwise distinct file names, and let \<open>read_csv\<close> read the peptides back
  as the strings they are (no peptide is \<open>NA\<close>, and the peptides are not all spellings
  of infinity or of a boolean). Then writing the peptide list, the manifest and every
  column (\<open>write_col\<close> for each column, as lines 369-371 do) succeeds, and
  \<open>load_results\<close> on the directory written returns the matrix itself, cell by cell, NaN
  included: both when it builds the frame from the directory and when it is given an
  all-NaN frame with the same peptides and columns.
\<close>

theorem store_round_trip:
  assumes "distinct peps"
    "list_all amino_acid_word peps"
    "read_csv_labels peps = map Str peps"
    "list_all allele_name als"
    "distinct (map path (make_manifest als (PREDICTOR_TO_COLS predictor)))"
    "index df = map Str peps"
    "columns df = map col (make_manifest als (PREDICTOR_TO_COLS predictor))"
    "list_all (\<lambda>(c, v). length v = length peps) (data df)"
  shows "\<exists>out'. write_cols (make_manifest als (PREDICTOR_TO_COLS predictor)) df
                   (init_out peps (make_manifest als (PREDICTOR_TO_COLS predictor)) out)
                   (columns df) = Inr out' \<and>
           load_results ((dirname, out') # fs) dirname None = Inr df \<and>
           load_results ((dirname, out') # fs) dirname
             (Some (nan_frame (map Str peps) (columns df))) = Inr df"
proof -
  let ?manifest = "make_manifest als (PREDICTOR_TO_COLS predictor)"
  have "distinct (map col_path (map col ?manifest))"
    using assms(5) by (simp only: path_make_manifest)
  then have "distinct (map col ?manifest)"
    by (rule distinct_map_inner)
  moreover have "frame_ok (map Str peps) df" using assms(6,8) by (simp add: frame_ok_def)
  ultimately show ?thesis using assms(1,3,5,7) by (intro round_trip_rows) auto
qed

theorem store_round_trip_witness:
  "distinct [''SIINFEKL'', ''AAAAAAAA''] \<and>
   list_all amino_acid_word [''SIINFEKL'', ''AAAAAAAA''] \<and>
   read_csv_labels [''SIINFEKL'', ''AAAAAAAA''] = map Str [''SIINFEKL'', ''AAAAAAAA''] \<and>
   list_all allele_name [''HLA-A*02:01'', ''HLA-B*07:02''] \<and>
   distinct (map path (make_manifest [''HLA-A*02:01'', ''HLA-B*07:02'']
                         (PREDICTOR_TO_COLS Mhcflurry))) \<and>
   list_all (\<lambda>(c, v). length v = length [''SIINFEKL'', ''AAAAAAAA''])
     [(''HLA-A*02:01 affinity'', [Val 120, NaN]), (''HLA-B*07:02 affinity'', [NaN, Val 7])] \<and>
   (\<exists>out'. write_cols (make_manifest [''HLA-A*02:01'', ''HLA-B*07:02'']
                          (PREDICTOR_TO_COLS Mhcflurry))
        \<lparr>index = [Str ''SIINFEKL'', Str ''AAAAAAAA''],
         data = [(''HLA-A*02:01 affinity'', [Val 120, NaN]),
                 (''HLA-B*07:02 affinity'', [NaN, Val 7])]\<rparr>
        (init_out [''SIINFEKL'', ''AAAAAAAA'']
           (make_manifest [''HLA-A*02:01'', ''HLA-B*07:02''] (PREDICTOR_TO_COLS Mhcflurry))
           \<lparr>peptides_csv = None, alleles_csv = None, arrays = []\<rparr>)
        [''HLA-A*02:01 affinity'', ''HLA-B*07:02 affinity''] = Inr out' \<and>
      load_results [(''out'', out')] ''out''
        (Some (nan_frame [Str ''SIINFEKL'', Str ''AAAAAAAA'']
                 [''HLA-A*02:01 affinity'', ''HLA-B*07:02 affinity''])) =
        Inr \<lparr>index = [Str ''SIINFEKL'', Str ''AAAAAAAA''],
             data = [(''HLA-A*02:01 affinity'', [Val 120, NaN]),
                     (''HLA-B*07:02 affinity'', [NaN, Val 7])]\<rparr>)"
proof -
  let ?df = "\<lparr>index = [Str ''SIINFEKL'', Str ''AAAAAAAA''],
         data = [(''HLA-A*02:01 affinity'', [Val 120, NaN]),
                 (''HLA-B*07:02 affinity'', [NaN, Val 7])]\<rparr>"
  let ?manifest = "make_manifest [''HLA-A*02:01'', ''HLA-B*07:02''] (PREDICTOR_TO_COLS Mhcflurry)"
  have h1: "distinct [''SIINFEKL'', ''AAAAAAAA'']" by simp
  have h2: "list_all amino_acid_word [''SIINFEKL'', ''AAAAAAAA'']" by code_simp
  have h3: "read_csv_labels [''SIINFEKL'', ''AAAAAAAA''] = map Str [''SIINFEKL'', ''AAAAAAAA'']"
    by code_simp
  have h4: "list_all allele_name [''HLA-A*02:01'', ''HLA-B*07:02'']" by code_simp
  have h5: "distinct (map path ?manifest)" by code_simp
  have h6: "index ?df = map Str [''SIINFEKL'', ''AAAAAAAA'']" by simp
  have h7: "columns ?df = map col ?manifest" by code_simp
  have h8: "list_all (\<lambda>(c, v). length v = length [''SIINFEKL'', ''AAAAAAAA'']) (data ?df)"
    by simp
  have c: "columns ?df = [''HLA-A*02:01 affinity'', ''HLA-B*07:02 affinity'']"
    by (simp add: columns_def)
  have l: "map Str [''SIINFEKL'', ''AAAAAAAA''] = [Str ''SIINFEKL'', Str ''AAAAAAAA'']"
    by simp
  from store_round_trip [OF h1 h2 h3 h4 h5 h6 h7 h8,
      of "\<lparr>peptides_csv = None, alleles_csv = None, arrays = []\<rparr>" "''out''" "[]"]
  have "\<exists>out'. write_cols ?manifest ?df
        (init_out [''SIINFEKL'', ''AAAAAAAA''] ?manifest
           \<lparr>peptides_csv = None, alleles_csv = None, arrays = []\<rparr>)
        [''HLA-A*02:01 affinity'', ''HLA-B*07:02 affinity''] = Inr out' \<and>
      load_results [(''out'', out')] ''out''
        (Some (nan_frame [Str ''SIINFEKL'', Str ''AAAAAAAA'']
                 [''HLA-A*02:01 affinity'', ''HLA-B*07:02 affinity''])) = Inr ?df"
    unfolding c l by blast
  with h1 h2 h3 h4 h5 h8 show ?thesis by simp
qed

text \<open>
  The claim as stated fails: for the alleles \<open>A*1\<close> and \<open>A1\<close> the columns
  \<open>A*1 affinity\<close> and \<open>A1 affinity\<close> are both kept in \<open>A1.affinity.npz\<close> (line 222
  drops the star), so the second column written overwrites the first, and
  \<open>load_results\<close> returns the values of the second column in both columns. The matrix
  loaded is not the matrix written.
\<close>

theorem store_round_trip_fails_on_shared_file_name:
  "write_cols (make_manifest [''A*1'', ''A1''] (PREDICTOR_TO_COLS Mhcflurry))
     \<lparr>index = [Str ''SIINFEKL''],
      data = [(''A*1 affinity'', [Val 1]), (''A1 affinity'', [Val 2])]\<rparr>
     (init_out [''SIINFEKL''] (make_manifest [''A*1'', ''A1''] (PREDICTOR_TO_COLS Mhcflurry))
        \<lparr>peptides_csv = None, alleles_csv = None, arrays = []\<rparr>)
     [''A*1 affinity'', ''A1 affinity''] =
   Inr \<lparr>peptides_csv = Some (Readable [''SIINFEKL'']),
        alleles_csv = Some (Readable \<lparr>has_kind = True, has_col = True,
          rows = [\<lparr>allele = ''A*1'', kind = ''affinity'', col = ''A*1 affinity'',
                     path = ''A1.affinity.npz''\<rparr>,
                  \<lparr>allele = ''A1'', kind = ''affinity'', col = ''A1 affinity'',
                     path = ''A1.affinity.npz''\<rparr>]\<rparr>),
        arrays = [(''A1.affinity.npz'', Readable [Val 2])]\<rparr> \<and>
   load_results
     [(''out'',
       \<lparr>peptides_csv = Some (Readable [''SIINFEKL'']),
        alleles_csv = Some (Readable \<lparr>has_kind = True, has_col = True,
          rows = [\<lparr>allele = ''A*1'', kind = ''affinity'', col = ''A*1 affinity'',
                     path = ''A1.affinity.npz''\<rparr>,
                  \<lparr>allele = ''A1'', kind = ''affinity'', col = ''A1 affinity'',
                     path = ''A1.affinity.npz''\<rparr>]\<rparr>),
        arrays = [(''A1.affinity.npz'', Readable [Val 2])]\<rparr>)]
     ''out''
     (Some (nan_frame [Str ''SIINFEKL''] [''A*1 affinity'', ''A1 affinity''])) =
   Inr \<lparr>index = [Str ''SIINFEKL''],
        data = [(''A*1 affinity'', [Val 2]), (''A1 affinity'', [Val 2])]\<rparr>"
  by code_simp

text \<open>
  The peptide \<open>NA\<close> does not come back either: \<open>read_csv\<close> reads it as the missing
  value, which is no row label of a frame that has the row \<open>NA\<close>, so nothing is
  assigned and the row keeps its NaN.
\<close>

lemma load_results_reads_NA_as_missing:
  "load_results
     [(''out'',
       \<lparr>peptides_csv = Some (Readable [''NA'']),
        alleles_csv = Some (Readable \<lparr>has_kind = True, has_col = True,
          rows = make_manifest [''HLA-A*02:01''] [''affinity'']\<rparr>),
        arrays = [(''HLA-A02:01.affinity.npz'', Readable [Val 5])]\<rparr>)]
     ''out'' (Some (nan_frame [Str ''NA''] [''HLA-A*02:01 affinity''])) =
   Inr \<lparr>index = [Str ''NA''], data = [(''HLA-A*02:01 affinity'', [NaN])]\<rparr>"
  by code_simp

section \<open>Properties of the reuse loop\<close>

lemma reuse_loop_filter:
  "reuse_loop fs dirs df ws =
     (case reuse_loop fs (filter (\<lambda>d. d \<noteq> [] \<and> map_of fs d \<noteq> None) dirs) df [] of
        Inl e \<Rightarrow> Inl e
      | Inr (df', _) \<Rightarrow>
          Inr (df', ws @ filter (\<lambda>d. d \<noteq> [] \<and> map_of fs d = None) dirs))"
proof (induction dirs arbitrary: df ws)
  case Nil
  then show ?case by simp
next
  case (Cons d dirs)
  let ?keep = "\<lambda>d. d \<noteq> [] \<and> map_of fs d \<noteq> None"
  let ?skip = "\<lambda>d. d \<noteq> [] \<and> map_of fs d = None"
  show ?case
  proof (cases "d = []")
    case True
    then have "reuse_loop fs (d # dirs) df ws = reuse_loop fs dirs df ws"
      "filter ?keep (d # dirs) = filter ?keep dirs" "filter ?skip (d # dirs) = filter ?skip dirs"
      by simp_all
    then show ?thesis using Cons.IH [of df ws] by (simp only:)
  next
    case ne: False
    show ?thesis
    proof (cases "map_of fs d")
      case None
      with ne have "reuse_loop fs (d # dirs) df ws = reuse_loop fs dirs df (ws @ [d])"
        "filter ?keep (d # dirs) = filter ?keep dirs"
        "(ws @ [d]) @ filter ?skip dirs = ws @ filter ?skip (d # dirs)"
        by simp_all
      then show ?thesis using Cons.IH [of df "ws @ [d]"] by (simp only:)
    next
      case (Some dir)
      with ne have k: "filter ?keep (d # dirs) = d # filter ?keep dirs"
        "filter ?skip (d # dirs) = filter ?skip dirs"
        by simp_all
      show ?thesis
      proof (cases "load_results fs d (Some df)")
        case (Inl e)
        with Some ne show ?thesis unfolding k by simp
      next
        case (Inr df1)
        with Some ne Cons.IH [of df1 ws] show ?thesis unfolding k by simp
      qed
    qed
  qed
qed

lemma load_columns_missing_file:
  assumes "r \<in> set rs"
    "map_of (arrays d) (path r) = None \<or> map_of (arrays d) (path r) = Some Unreadable"
  shows "\<exists>e. load_columns d row_mask labels rs df = Inl e"
  using assms(1)
proof (induction rs arbitrary: df)
  case Nil
  then show ?case by simp
next
  case (Cons r' rs)
  show ?case
  proof (cases "r = r'")
    case True
    with assms(2) show ?thesis by (auto simp: read_file_def)
  next
    case False
    with Cons.prems have "r \<in> set rs" by simp
    from Cons.IH [OF this] show ?thesis
      by (auto split: option.splits sum.splits)
  qed
qed

text \<open>
  C3 (amended): the reuse loop skips, with one warning each, exactly the directories
  that do not exist (empty names are passed over without a warning), and goes on with the
  others: its result is that of the loop over the existing directories alone, with the
  absent ones as warnings. A directory that exists but whose peptide file, manifest, or
  array file of a manifest row for a column of the run is missing or unreadable makes
  \<open>load_results\<close> raise, and the exception leaves the loop: the run stops.
\<close>

theorem reuse_loop_skips_absent_directories_only:
  "reuse_loop fs dirs df ws =
     (case reuse_loop fs (filter (\<lambda>d. d \<noteq> [] \<and> map_of fs d \<noteq> None) dirs) df [] of
        Inl e \<Rightarrow> Inl e
      | Inr (df', _) \<Rightarrow>
          Inr (df', ws @ filter (\<lambda>d. d \<noteq> [] \<and> map_of fs d = None) dirs)) \<and>
   (d \<noteq> [] \<and> map_of fs d = Some dir \<and>
    (peptides_csv dir = None \<or> peptides_csv dir = Some Unreadable \<or>
     alleles_csv dir = None \<or> alleles_csv dir = Some Unreadable \<or>
     (\<exists>mf r. alleles_csv dir = Some (Readable mf) \<and> r \<in> set (adjust_manifest mf) \<and>
        col r \<in> set (columns df) \<and>
        (map_of (arrays dir) (path r) = None \<or>
         map_of (arrays dir) (path r) = Some Unreadable))) \<longrightarrow>
    (\<exists>e. reuse_loop fs (d # rest) df ws = Inl e))"
proof (intro conjI impI)
  show "reuse_loop fs dirs df ws =
     (case reuse_loop fs (filter (\<lambda>d. d \<noteq> [] \<and> map_of fs d \<noteq> None) dirs) df [] of
        Inl e \<Rightarrow> Inl e
      | Inr (df', _) \<Rightarrow>
          Inr (df', ws @ filter (\<lambda>d. d \<noteq> [] \<and> map_of fs d = None) dirs))"
    by (rule reuse_loop_filter)
next
  assume a: "d \<noteq> [] \<and> map_of fs d = Some dir \<and>
    (peptides_csv dir = None \<or> peptides_csv dir = Some Unreadable \<or>
     alleles_csv dir = None \<or> alleles_csv dir = Some Unreadable \<or>
     (\<exists>mf r. alleles_csv dir = Some (Readable mf) \<and> r \<in> set (adjust_manifest mf) \<and>
        col r \<in> set (columns df) \<and>
        (map_of (arrays dir) (path r) = None \<or>
         map_of (arrays dir) (path r) = Some Unreadable)))"
  have "\<exists>e. load_results fs d (Some df) = Inl e"
  proof (cases "read_file (peptides_csv dir)")
    case (Inl e)
    with a show ?thesis by (simp add: load_results_def)
  next
    case p: (Inr cells)
    show ?thesis
    proof (cases "read_file (alleles_csv dir)")
      case (Inl e)
      with a p show ?thesis by (simp add: load_results_def)
    next
      case m: (Inr mf)
      from p have "peptides_csv dir \<noteq> None" "peptides_csv dir \<noteq> Some Unreadable"
        by (auto simp: read_file_def split: option.splits file_content.splits)
      moreover from m have "alleles_csv dir = Some (Readable mf)"
        by (auto simp: read_file_def split: option.splits file_content.splits)
      ultimately obtain r where
        r: "r \<in> set (adjust_manifest mf)" "col r \<in> set (columns df)"
          "map_of (arrays dir) (path r) = None \<or>
           map_of (arrays dir) (path r) = Some Unreadable"
        using a by auto
      from r have "r \<in> set (filter (\<lambda>r. col r \<in> set (columns df)) (adjust_manifest mf))"
        by simp
      from load_columns_missing_file [OF this r(3)] a p m show ?thesis
        by (simp add: load_results_def Let_def)
    qed
  qed
  with a show "\<exists>e. reuse_loop fs (d # rest) df ws = Inl e" by auto
qed

theorem reuse_loop_skips_absent_directories_only_witness:
  "reuse_loop [(''prior'', \<lparr>peptides_csv = None, alleles_csv = None, arrays = []\<rparr>)]
     [''absent'', '''', ''gone'']
     (nan_frame [Str ''SIINFEKL''] [''HLA-A*02:01 affinity'']) [] =
     Inr (nan_frame [Str ''SIINFEKL''] [''HLA-A*02:01 affinity''], [''absent'', ''gone'']) \<and>
   ''prior'' \<noteq> [] \<and>
   map_of [(''prior'', \<lparr>peptides_csv = None, alleles_csv = None, arrays = []\<rparr>)] ''prior'' =
     Some \<lparr>peptides_csv = None, alleles_csv = None, arrays = []\<rparr> \<and>
   peptides_csv \<lparr>peptides_csv = None, alleles_csv = None, arrays = []\<rparr> = None \<and>
   (\<exists>e. reuse_loop [(''prior'', \<lparr>peptides_csv = None, alleles_csv = None, arrays = []\<rparr>)]
     (''prior'' # [''absent''])
     (nan_frame [Str ''SIINFEKL''] [''HLA-A*02:01 affinity'']) [] = Inl e)"
  using reuse_loop_skips_absent_directories_only
    [of "[(''prior'', \<lparr>peptides_csv = None, alleles_csv = None, arrays = []\<rparr>)]"
        "[''absent'', '''', ''gone'']"
        "nan_frame [Str ''SIINFEKL''] [''HLA-A*02:01 affinity'']" "[]"
        "''prior''" "\<lparr>peptides_csv = None, alleles_csv = None, arrays = []\<rparr>"
        "[''absent'']"]
  by simp

text \<open>
  The claim as stated fails: a reuse directory that exists and has no peptide file is not
  skipped; the FileNotFoundError of \<open>load_results\<close> ends the run.
\<close>

theorem reuse_loop_aborts_on_missing_peptide_file:
  "reuse_loop [(''prior'', \<lparr>peptides_csv = None, alleles_csv = None, arrays = []\<rparr>)]
     [''prior'']
     (nan_frame [Str ''SIINFEKL''] [''HLA-A*02:01 affinity'']) [] = Inl FileNotFoundError"
  by code_simp

section \<open>The work items of a run with reused predictions\<close>

text \<open>
  C2: two peptides and two alleles; the reused data holds the affinity of SIINFEKL for
  HLA-A*02:01 and nothing else. The block of HLA-A*02:01 is the single row of AAAAAAAA,
  but line 265 splits the array of all peptides, so the work item of that block holds
  both peptides: the pair (SIINFEKL, HLA-A*02:01), already computed, is scheduled again,
  and the peptides of the block's work items are not the block's rows.
\<close>

theorem reuse_run_recomputes_reused_cells:
  "reuse_run_work_items [''SIINFEKL'', ''AAAAAAAA''] [''HLA-A*02:01'', ''HLA-B*07:02'']
     (make_manifest [''HLA-A*02:01'', ''HLA-B*07:02''] (PREDICTOR_TO_COLS Mhcflurry))
     \<lparr>index = [Str ''SIINFEKL'', Str ''AAAAAAAA''],
      data = [(''HLA-A*02:01 affinity'', [Val 120, NaN]),
              (''HLA-B*07:02 affinity'', [NaN, NaN])]\<rparr>
     100000 =
   Some (Inr [\<lparr>alleles = [''HLA-B*07:02''], peptides = [''SIINFEKL'', ''AAAAAAAA'']\<rparr>,
              \<lparr>alleles = [''HLA-A*02:01''], peptides = [''SIINFEKL'', ''AAAAAAAA'']\<rparr>])"
  by code_simp

end
